theory Spec2Isabelle
  imports Main "HOL-Library.AList"
begin

section \<open>Byte strings and the Go library functions the RELP code calls\<close>

text \<open>
  A Go \<open>[]byte\<close> or \<open>string\<close> is a \<^typ>\<open>string\<close> here (a list of 8-bit characters).
  The cut set \<open>" \r\n"\<close> of \<open>bytes.TrimLeft\<close> and \<open>bytes.Trim\<close> and the predicate
  \<open>splitSpaceOrLF\<close> of relp.go name the same three bytes.
\<close>

definition splitSpaceOrLF :: "char \<Rightarrow> bool" where
  "splitSpaceOrLF r = (r = CHR '' '' \<or> r = CHR 0x0A \<or> r = CHR 0x0D)"

definition TrimLeft :: "string \<Rightarrow> string" where
  "TrimLeft s = dropWhile splitSpaceOrLF s"

definition Trim :: "string \<Rightarrow> string" where
  "Trim s = rev (dropWhile splitSpaceOrLF (rev (dropWhile splitSpaceOrLF s)))"

text \<open>
  \<open>bytes.FieldsFunc\<close>: one pass over the bytes; \<open>cur\<close> is the field being read
  (the bytes from \<open>start\<close> to the current index; empty when \<open>start < 0\<close>).
\<close>

fun FieldsFunc_from :: "string \<Rightarrow> string \<Rightarrow> string list" where
  "FieldsFunc_from cur [] = (if cur = [] then [] else [cur])"
| "FieldsFunc_from cur (c # cs) =
     (if splitSpaceOrLF c
      then (if cur = [] then FieldsFunc_from [] cs else cur # FieldsFunc_from [] cs)
      else FieldsFunc_from (cur @ [c]) cs)"

definition FieldsFunc :: "string \<Rightarrow> string list" where
  "FieldsFunc s = FieldsFunc_from [] s"

text \<open>
  \<open>bytes.SplitN(s, sep, n)\<close> and \<open>strings.SplitN\<close> for a one-byte separator and
  \<open>n > 0\<close>: at most \<open>n\<close> pieces, cut at each separator, the last piece holding
  the unsplit rest. \<open>strings.Split\<close> cuts at every separator.
\<close>

fun SplitN_from :: "char \<Rightarrow> string \<Rightarrow> string \<Rightarrow> nat \<Rightarrow> string list" where
  "SplitN_from sep cur [] n = [cur]"
| "SplitN_from sep cur (c # cs) n =
     (if n \<le> 1 then [cur @ c # cs]
      else if c = sep then cur # SplitN_from sep [] cs (n - 1)
      else SplitN_from sep (cur @ [c]) cs n)"

definition SplitN :: "string \<Rightarrow> char \<Rightarrow> nat \<Rightarrow> string list" where
  "SplitN s sep n = SplitN_from sep [] s n"

definition Split :: "string \<Rightarrow> char \<Rightarrow> string list" where
  "Split s sep = SplitN_from sep [] s (length s + 1)"

text \<open>
  \<open>strconv.Atoi\<close> on a 64-bit platform: an optional sign, then one or more decimal
  digits; the value must fit an \<open>int64\<close>. The returned pair is the value and the
  error: 0 with a syntax error, the nearest bound with a range error.
\<close>

datatype NumError = ErrSyntax | ErrRange

definition is_digit :: "char \<Rightarrow> bool" where
  "is_digit c = (48 \<le> (of_char c :: nat) \<and> (of_char c :: nat) \<le> 57)"

definition digits_value :: "string \<Rightarrow> int" where
  "digits_value s = foldl (\<lambda>n c. n * 10 + (int (of_char c) - 48)) 0 s"

definition unsigned_part :: "string \<Rightarrow> string" where
  "unsigned_part s =
     (case s of [] \<Rightarrow> []
      | c # cs \<Rightarrow> if c = CHR ''-'' \<or> c = CHR ''+'' then cs else s)"

definition is_negative :: "string \<Rightarrow> bool" where
  "is_negative s = (case s of [] \<Rightarrow> False | c # cs \<Rightarrow> c = CHR ''-'')"

definition Atoi :: "string \<Rightarrow> int \<times> NumError option" where
  "Atoi s =
     (let body = unsigned_part s; un = digits_value body in
      if body = [] \<or> \<not> list_all is_digit body then (0, Some ErrSyntax)
      else if \<not> is_negative s \<and> 2 ^ 63 \<le> un then (2 ^ 63 - 1, Some ErrRange)
      else if is_negative s \<and> 2 ^ 63 < un then (- (2 ^ 63), Some ErrRange)
      else (if is_negative s then - un else un, None))"

text \<open>Go's \<open>int\<close> addition on a 64-bit platform wraps around.\<close>

definition wrap64 :: "int \<Rightarrow> int" where
  "wrap64 x = (x + 2 ^ 63) mod 2 ^ 64 - 2 ^ 63"

section \<open>The RELP frame splitter\<close>

text \<open>
  \<open>RelpSplit\<close> of relp.go returns \<open>(advance, token, err)\<close>; a \<open>nil\<close> token is
  \<open>None\<close>. Slicing \<open>data[:advance]\<close> with a negative bound panics, which is the
  \<open>Inl\<close> result. The argument \<open>atEOF\<close> is not read by the source and is left out.
\<close>

datatype GoPanic = SliceBoundsOutOfRange | IndexOutOfRange

type_synonym split_result = "GoPanic + (int \<times> string option \<times> NumError option)"

definition RelpSplit :: "string \<Rightarrow> split_result" where
  "RelpSplit data =
     (let trimmedData = TrimLeft data in
      if length trimmedData = 0 then Inr (0, None, None)
      else
        let splits = FieldsFunc trimmedData; l = length splits in
        if l < 3 then Inr (0, None, None)
        else
          let txnrStr = splits ! 0; command = splits ! 1; datalenStr = splits ! 2;
              tokenStr = txnrStr @ '' '' @ command @ '' '' @ datalenStr;
              advance = int (length data) - int (length trimmedData) + int (length tokenStr) + 1
          in
          if l = 3 \<and> int (length data) < advance then Inr (0, None, None)
          else
            (case Atoi txnrStr of
               (_, Some err) \<Rightarrow> Inr (0, None, Some err)
             | (_, None) \<Rightarrow>
                (case Atoi datalenStr of
                   (_, Some err) \<Rightarrow> Inr (0, None, Some err)
                 | (datalen, None) \<Rightarrow>
                     if datalen = 0 then Inr (advance, Some tokenStr, None)
                     else
                       let advance' = wrap64 (advance + wrap64 (datalen + 1)) in
                       if advance' \<le> int (length data) then
                         (if advance' < 0 then Inl SliceBoundsOutOfRange
                          else Inr (advance', Some (Trim (take (nat advance') data)), None))
                       else Inr (0, None, None))))"

text \<open>
  The frame splitter as the specification words it: trim leading whitespace; with fewer
  than three tokens ask for more bytes; parse TXNR and DATALEN as decimals, an error if
  either is not numeric; with DATALEN 0 the frame ends at the header; otherwise the
  frame is returned once DATALEN + 1 further bytes are there, and more bytes are asked
  for until then. Where the words leave a value open (how many bytes the header counts
  for, which bytes are handed back) the expressions are those of \<open>RelpSplit\<close>, so that
  the two definitions differ in control flow only.
\<close>

definition header_advance :: "string \<Rightarrow> int" where
  "header_advance data =
     (let trimmedData = TrimLeft data; splits = FieldsFunc trimmedData in
      int (length data) - int (length trimmedData)
        + int (length (splits ! 0 @ '' '' @ splits ! 1 @ '' '' @ splits ! 2)) + 1)"




section \<open>Framing RELP frames and scanning a stream\<close>

text \<open>Decimal rendering of a natural number, as \<open>strconv.Itoa\<close> and \<open>%d\<close> print it.\<close>

definition digit_char :: "nat \<Rightarrow> char" where
  "digit_char n = char_of (48 + n)"

function Itoa :: "nat \<Rightarrow> string" where
  "Itoa n = (if n < 10 then [digit_char n] else Itoa (n div 10) @ [digit_char (n mod 10)])"
  by pat_completeness auto
termination
  by (relation "measure id") auto

declare Itoa.simps [simp del]

text \<open>
  Modelled from the spec: the framer is the RELP client's side and is not part of the
  sources; the wire format is \<open>TXNR SP COMMAND SP DATALEN (SP DATA)? LF\<close> with DATALEN
  the byte length of DATA, the optional part being absent for empty DATA.
\<close>

record relp_frame =
  f_txnr :: nat
  f_command :: string
  f_data :: string

definition frame_contents :: "relp_frame \<Rightarrow> string" where
  "frame_contents f =
     Itoa (f_txnr f) @ '' '' @ f_command f @ '' '' @ Itoa (length (f_data f))
       @ (if f_data f = [] then [] else '' '' @ f_data f)"

definition framer :: "relp_frame \<Rightarrow> string" where
  "framer f = frame_contents f @ [CHR 0x0A]"

definition ends_in_space :: "string \<Rightarrow> bool" where
  "ends_in_space s = (s \<noteq> [] \<and> splitSpaceOrLF (last s))"

definition valid_frame :: "relp_frame \<Rightarrow> bool" where
  "valid_frame f =
     (f_txnr f < 2 ^ 63 \<and> f_command f \<noteq> [] \<and> \<not> list_ex splitSpaceOrLF (f_command f))"

text \<open>
  \<open>bufio.Scanner\<close> driving \<open>RelpSplit\<close> over a stream that is wholly in the buffer and
  at end of input: a token advances the buffer, an error or a panic stops the scan, a
  request for more data ends it. A token with no progress is handed over and the
  model stops there.
\<close>

datatype scan_end = ScanEOF | ScanErr NumError | ScanPanic GoPanic | ScanBadAdvance | ScanStalled

function Scan :: "string \<Rightarrow> string list \<times> scan_end" where
  "Scan data =
     (case RelpSplit data of
        Inl p \<Rightarrow> ([], ScanPanic p)
      | Inr r \<Rightarrow>
         (case snd (snd r) of
            Some err \<Rightarrow> ([], ScanErr err)
          | None \<Rightarrow>
             (case fst (snd r) of
                None \<Rightarrow> ([], ScanEOF)
              | Some tok \<Rightarrow>
                  if fst r < 0 \<or> int (length data) < fst r then ([], ScanBadAdvance)
                  else if fst r = 0 then ([tok], ScanStalled)
                  else (tok # fst (Scan (drop (nat (fst r)) data)),
                        snd (Scan (drop (nat (fst r)) data))))))"
  by pat_completeness auto
termination
  by (relation "measure length") auto

declare Scan.simps [simp del]

section \<open>The acknowledgement forwarder\<close>

text \<open>
  \<open>hashmap.HashMap\<close> maps a key to an \<open>unsafe.Pointer\<close>; an entry can hold the nil
  pointer, which is \<open>None\<close> here. The list order is the order \<open>Iter\<close> walks the
  entries in. \<open>GetKey\<close> returns \<open>(ptr, ok)\<close>: \<open>None\<close> when the key is absent.
\<close>

type_synonym ('k, 'v) HashMap = "('k \<times> 'v option) list"

definition GetKey :: "('k, 'v) HashMap \<Rightarrow> 'k \<Rightarrow> 'v option option" where
  "GetKey h k = map_of h k"

definition Set :: "('k, 'v) HashMap \<Rightarrow> 'k \<Rightarrow> 'v option \<Rightarrow> ('k, 'v) HashMap" where
  "Set h k v = AList.update k v h"

definition Del :: "('k, 'v) HashMap \<Rightarrow> 'k \<Rightarrow> ('k, 'v) HashMap" where
  "Del h k = AList.delete k h"

text \<open>
  Modelled from the spec: the package \<open>utils/queue\<close> (\<open>IntQueue\<close>, \<open>WaitOne\<close>) is not
  among the sources. A queue is FIFO; \<open>Get\<close> is a non-blocking dequeue that fails
  when there is nothing to hand out; \<open>WaitOne\<close> blocks (\<open>None\<close>) until one of the two
  queues is non-empty or disposed, and false means disposed.
\<close>

record IntQueue =
  items :: "int list"
  disposed :: bool

definition NewIntQueue :: IntQueue where
  "NewIntQueue = \<lparr>items = [], disposed = False\<rparr>"

definition Put :: "IntQueue \<Rightarrow> int \<Rightarrow> IntQueue" where
  "Put q x = (if disposed q then q else q\<lparr>items := items q @ [x]\<rparr>)"

definition Get :: "IntQueue \<Rightarrow> (int \<times> IntQueue) option" where
  "Get q = (case items q of
              [] \<Rightarrow> None
            | x # xs \<Rightarrow> if disposed q then None else Some (x, q\<lparr>items := xs\<rparr>))"

definition Dispose :: "IntQueue \<Rightarrow> IntQueue" where
  "Dispose q = q\<lparr>disposed := True\<rparr>"

definition WaitOne :: "IntQueue \<Rightarrow> IntQueue \<Rightarrow> bool option" where
  "WaitOne q1 q2 =
     (if disposed q1 \<or> disposed q2 then Some False
      else if items q1 \<noteq> [] \<or> items q2 \<noteq> [] then Some True
      else None)"

text \<open>
  \<open>ackForwarder\<close>: the maps \<open>succ\<close> and \<open>fail\<close> hold pointers to queues, which live
  in the store \<open>queues\<close> (a pointer is an index into it), so that a caller that
  already holds a pointer still sees the queue after its map entry is gone. \<open>comm\<close> holds, per
  connection, a map from \<open>uintptr(txnr)\<close> to a pointer to \<open>tr\<close> or \<open>fa\<close>; the key is
  kept as the \<open>int\<close> that \<open>int(kv.Key.(uintptr))\<close> reads back. \<open>next\<close> is a
  \<open>uintptr\<close> counter.
\<close>

record ackForwarder =
  succ :: "(nat, nat) HashMap"
  fail :: "(nat, nat) HashMap"
  comm :: "(nat, (int, bool) HashMap) HashMap"
  next_conn :: nat
  queues :: "IntQueue list"

definition queue_at :: "ackForwarder \<Rightarrow> nat \<Rightarrow> IntQueue" where
  "queue_at f a = (if a < length (queues f) then queues f ! a else NewIntQueue)"

definition queue_upd :: "ackForwarder \<Rightarrow> nat \<Rightarrow> IntQueue \<Rightarrow> ackForwarder" where
  "queue_upd f a q = f\<lparr>queues := (queues f)[a := q]\<rparr>"

definition newAckForwarder :: ackForwarder where
  "newAckForwarder =
     \<lparr>succ = [], fail = [], comm = [], next_conn = 0, queues = []\<rparr>"

definition Received :: "ackForwarder \<Rightarrow> nat \<Rightarrow> int \<Rightarrow> ackForwarder" where
  "Received f connID txnr =
     (case GetKey (comm f) connID of
        Some (Some h) \<Rightarrow> f\<lparr>comm := Set (comm f) connID (Some (Set h txnr (Some True)))\<rparr>
      | _ \<Rightarrow> f)"

definition Committed :: "ackForwarder \<Rightarrow> nat \<Rightarrow> int \<Rightarrow> ackForwarder" where
  "Committed f connID txnr =
     (case GetKey (comm f) connID of
        Some (Some h) \<Rightarrow>
          f\<lparr>comm := Set (comm f) connID (Some (Del (Set h txnr (Some False)) txnr))\<rparr>
      | _ \<Rightarrow> f)"

fun minimum_loop :: "int \<Rightarrow> (int \<times> bool option) list \<Rightarrow> int" where
  "minimum_loop minimum [] = minimum"
| "minimum_loop minimum ((key, val) # kvs) =
     (if val = Some True
      then (if minimum = - 1 then minimum_loop key kvs
            else if key < minimum then minimum_loop key kvs
            else minimum_loop minimum kvs)
      else minimum_loop minimum kvs)"

definition NextToCommit :: "ackForwarder \<Rightarrow> nat \<Rightarrow> int" where
  "NextToCommit f connID =
     (case GetKey (comm f) connID of
        Some (Some h) \<Rightarrow> if length h = 0 then - 1 else minimum_loop (- 1) h
      | _ \<Rightarrow> - 1)"

definition ForwardSucc :: "ackForwarder \<Rightarrow> nat \<Rightarrow> int \<Rightarrow> ackForwarder" where
  "ForwardSucc f connID txnr =
     (case GetKey (succ f) connID of
        Some (Some a) \<Rightarrow> queue_upd f a (Put (queue_at f a) txnr)
      | _ \<Rightarrow> f)"

definition ForwardFail :: "ackForwarder \<Rightarrow> nat \<Rightarrow> int \<Rightarrow> ackForwarder" where
  "ForwardFail f connID txnr =
     (case GetKey (fail f) connID of
        Some (Some a) \<Rightarrow> queue_upd f a (Put (queue_at f a) txnr)
      | _ \<Rightarrow> f)"

definition AddConn :: "ackForwarder \<Rightarrow> nat \<times> ackForwarder" where
  "AddConn f =
     (let connID = (next_conn f + 1) mod 2 ^ 64;
          a1 = length (queues f); a2 = length (queues f) + 1
      in (connID,
          f\<lparr>next_conn := connID,
            succ := Set (succ f) connID (Some a1),
            fail := Set (fail f) connID (Some a2),
            comm := Set (comm f) connID (Some []),
            queues := queues f @ [NewIntQueue, NewIntQueue]\<rparr>))"

definition RemoveConn_succ :: "ackForwarder \<Rightarrow> nat \<Rightarrow> ackForwarder" where
  "RemoveConn_succ f connID =
     (case GetKey (succ f) connID of
        Some (Some a) \<Rightarrow>
          (queue_upd f a (Dispose (queue_at f a)))
            \<lparr>succ := Del (Set (succ f) connID None) connID\<rparr>
      | _ \<Rightarrow> f)"

definition RemoveConn_fail :: "ackForwarder \<Rightarrow> nat \<Rightarrow> ackForwarder" where
  "RemoveConn_fail f connID =
     (case GetKey (fail f) connID of
        Some (Some a) \<Rightarrow>
          (queue_upd f a (Dispose (queue_at f a)))
            \<lparr>fail := Del (Set (fail f) connID None) connID\<rparr>
      | _ \<Rightarrow> f)"

definition RemoveConn_comm :: "ackForwarder \<Rightarrow> nat \<Rightarrow> ackForwarder" where
  "RemoveConn_comm f connID =
     (case GetKey (comm f) connID of
        Some (Some h) \<Rightarrow>
          f\<lparr>fail := Set (fail f) connID None,
            comm := Del (comm f) connID\<rparr>
      | _ \<Rightarrow> f)"

definition RemoveConn :: "ackForwarder \<Rightarrow> nat \<Rightarrow> ackForwarder" where
  "RemoveConn f connID = RemoveConn_comm (RemoveConn_fail (RemoveConn_succ f connID) connID) connID"

definition GetSucc :: "ackForwarder \<Rightarrow> nat \<Rightarrow> int \<times> ackForwarder" where
  "GetSucc f connID =
     (case GetKey (succ f) connID of
        Some (Some a) \<Rightarrow>
          (case Get (queue_at f a) of
             None \<Rightarrow> (- 1, f)
           | Some (txnr, q) \<Rightarrow> (txnr, queue_upd f a q))
      | _ \<Rightarrow> (- 1, f))"

definition GetFail :: "ackForwarder \<Rightarrow> nat \<Rightarrow> int \<times> ackForwarder" where
  "GetFail f connID =
     (case GetKey (fail f) connID of
        Some (Some a) \<Rightarrow>
          (case Get (queue_at f a) of
             None \<Rightarrow> (- 1, f)
           | Some (txnr, q) \<Rightarrow> (txnr, queue_upd f a q))
      | _ \<Rightarrow> (- 1, f))"

text \<open>
  \<open>Wait\<close> first reads the two pointers, then blocks in \<open>WaitOne\<close> on the queues it
  holds; \<open>Wait_pointers\<close> is the first half, \<open>Wait_pending\<close> the second, looked at
  in a later state of the forwarder.
\<close>

definition Wait_pointers :: "ackForwarder \<Rightarrow> nat \<Rightarrow> (nat \<times> nat) option" where
  "Wait_pointers f connID =
     (case GetKey (succ f) connID of
        Some (Some ptrsucc) \<Rightarrow>
          (case GetKey (fail f) connID of
             Some (Some ptrfail) \<Rightarrow> Some (ptrsucc, ptrfail)
           | _ \<Rightarrow> None)
      | _ \<Rightarrow> None)"

definition Wait_pending :: "ackForwarder \<Rightarrow> nat \<times> nat \<Rightarrow> bool option" where
  "Wait_pending f ptrs = WaitOne (queue_at f (fst ptrs)) (queue_at f (snd ptrs))"

definition Wait :: "ackForwarder \<Rightarrow> nat \<Rightarrow> bool option" where
  "Wait f connID =
     (case Wait_pointers f connID of
        None \<Rightarrow> Some False
      | Some ptrs \<Rightarrow> Wait_pending f ptrs)"

section \<open>The RELP connection handler\<close>

text \<open>
  \<open>model.RawTcpMessage\<close> and the fields of \<open>conf.SyslogConfig\<close> that the handler
  reads. The read deadline and the logger are not modelled.
\<close>

record RawTcpMessage =
  Message :: string
  Size :: int
  Txnr :: int
  Client :: string
  LocalPort :: int
  UnixSocketPath :: string
  ConfID :: string
  DontParseSD :: bool
  Encoding :: string
  Format :: string
  ConnID :: nat

record SyslogConfig =
  cfg_ConfID :: string
  cfg_DontParseSD :: bool
  cfg_Encoding :: string
  cfg_Format :: string

text \<open>What \<open>HandleConnection\<close> computes before its loop and keeps fixed.\<close>

record conn_env =
  client :: string
  localPort :: int
  path :: string
  config :: SyslogConfig
  connID :: nat

text \<open>
  The effects of the handler other than those on the forwarder, in the order they
  happen: counter increments, writes to the socket, buffers taken from the pool (by
  address) and messages put on the raw ring.
\<close>

datatype net_event =
    RelpProtocolErrorsInc string
  | IncomingMsgsInc string
  | ConnWrite string
  | ConnClose
  | PoolGet nat
  | RawPut nat RawTcpMessage

record handler_state =
  relpIsOpen :: bool
  previous :: int
  forwarder :: ackForwarder
  trace :: "net_event list"

datatype outcome = Continue | Return | Panicked GoPanic

definition FormatInt :: "int \<Rightarrow> string" where
  "FormatInt i = (if i < 0 then CHR ''-'' # Itoa (nat (- i)) else Itoa (nat i))"

text \<open>\<open>copy(dst, src)\<close> overwrites the first \<open>min(len(dst), len(src))\<close> bytes.\<close>

definition copy_bytes :: "string \<Rightarrow> string \<Rightarrow> string" where
  "copy_bytes dst src = take (length dst) src @ drop (length src) dst"

definition emit :: "handler_state \<Rightarrow> net_event list \<Rightarrow> handler_state" where
  "emit st evs = st\<lparr>trace := trace st @ evs\<rparr>"

text \<open>
  The body of the \<open>for scanner.Scan()\<close> loop for one scanned line. \<open>rented\<close> is
  the buffer \<open>s.Pool.Get()\<close> hands out if it is asked: its address and its stale
  contents.
\<close>

definition handle_command ::
  "conn_env \<Rightarrow> nat \<times> RawTcpMessage \<Rightarrow> handler_state \<Rightarrow> int \<Rightarrow> string \<Rightarrow> string
     \<Rightarrow> outcome \<times> handler_state" where
  "handle_command env rented st txnr command data =
     (if command = ''open'' then
        (if relpIsOpen st then (Return, emit st [RelpProtocolErrorsInc (client env)])
         else (Continue,
               (emit st [ConnWrite (FormatInt txnr @ '' rsp '' @ FormatInt (int (length data) + 7)
                                     @ '' 200 OK'' @ [CHR 0x0A] @ data @ [CHR 0x0A])])
                 \<lparr>relpIsOpen := True\<rparr>))
      else if command = ''close'' then
        (if \<not> relpIsOpen st then (Return, emit st [RelpProtocolErrorsInc (client env)])
         else (Continue,
               (emit st [ConnWrite (FormatInt txnr @ '' rsp 0'' @ [CHR 0x0A]
                                     @ ''0 serverclose 0'' @ [CHR 0x0A]), ConnClose])
                 \<lparr>relpIsOpen := False\<rparr>))
      else if command = ''syslog'' then
        (if \<not> relpIsOpen st then (Return, emit st [RelpProtocolErrorsInc (client env)])
         else
           let st1 = st\<lparr>forwarder := Received (forwarder st) (connID env) txnr\<rparr> in
           if length data = 0
           then (Continue, st1\<lparr>forwarder := ForwardSucc (forwarder st1) (connID env) txnr\<rparr>)
           else
             let rawmsg = (snd rented)
                   \<lparr>Size := int (length data),
                    Txnr := txnr,
                    Client := client env,
                    LocalPort := localPort env,
                    UnixSocketPath := path env,
                    ConfID := cfg_ConfID (config env),
                    DontParseSD := cfg_DontParseSD (config env),
                    Encoding := cfg_Encoding (config env),
                    Format := cfg_Format (config env),
                    ConnID := connID env,
                    Message := copy_bytes (Message (snd rented)) data\<rparr>
             in (Continue,
                 emit st1 [PoolGet (fst rented), IncomingMsgsInc (client env),
                           RawPut (fst rented) rawmsg]))
      else (Return, emit st [RelpProtocolErrorsInc (client env)]))"

definition handle_line ::
  "conn_env \<Rightarrow> nat \<times> RawTcpMessage \<Rightarrow> handler_state \<Rightarrow> string \<Rightarrow> outcome \<times> handler_state" where
  "handle_line env rented st line =
     (let splits = SplitN line (CHR '' '') 4;
          txnr = fst (Atoi (splits ! 0))
      in
      if txnr \<le> previous st then (Return, emit st [RelpProtocolErrorsInc (client env)])
      else
        let st' = st\<lparr>previous := txnr\<rparr> in
        if length splits < 2 then (Panicked IndexOutOfRange, st')
        else
          let command = splits ! 1 in
          if length splits < 3 then (Panicked IndexOutOfRange, st')
          else
            let datalen = fst (Atoi (splits ! 2)) in
            if datalen \<noteq> 0 then
              (if length splits = 4
               then handle_command env rented st' txnr command (Trim (splits ! 3))
               else (Return, emit st' [RelpProtocolErrorsInc (client env)]))
            else handle_command env rented st' txnr command [])"

text \<open>
  The loop over the lines the scanner yields, each paired with the buffer the pool
  would hand out. The loop goes on after \<open>close\<close> (there is no \<open>return\<close> in that
  branch): the lines still in the scanner's buffer are processed.
\<close>

fun handle_lines ::
  "conn_env \<Rightarrow> handler_state \<Rightarrow> (string \<times> (nat \<times> RawTcpMessage)) list
     \<Rightarrow> outcome \<times> handler_state" where
  "handle_lines env st [] = (Continue, st)"
| "handle_lines env st ((line, rented) # rest) =
     (case handle_line env rented st line of
        (Continue, st') \<Rightarrow> handle_lines env st' rest
      | (out, st') \<Rightarrow> (out, st'))"

text \<open>
  \<open>HandleConnection\<close>: \<open>AddConn\<close>, the loop with \<open>previous = -1\<close> and the session
  not open, then the deferred \<open>RemoveConn\<close>, which also runs when the loop panics.
\<close>

definition HandleConnection ::
  "ackForwarder \<Rightarrow> string \<Rightarrow> int \<Rightarrow> string \<Rightarrow> SyslogConfig
     \<Rightarrow> (string \<times> (nat \<times> RawTcpMessage)) list \<Rightarrow> outcome \<times> handler_state" where
  "HandleConnection f cl port pth cfg lines =
     (let (cid, f1) = AddConn f;
          env = \<lparr>client = cl, localPort = port, path = pth, config = cfg, connID = cid\<rparr>;
          st0 = \<lparr>relpIsOpen = False, previous = - 1, forwarder = f1, trace = []\<rparr>;
          (out, st) = handle_lines env st0 lines
      in (out, st\<lparr>forwarder := RemoveConn (forwarder st) cid\<rparr>))"

text \<open>
  The raw message the handler puts on the ring for a \<open>syslog\<close> frame with payload
  \<open>data\<close>, written out as a whole, and the buffers a trace takes from the pool and
  puts on the ring.
\<close>

definition syslog_rawmsg :: "conn_env \<Rightarrow> RawTcpMessage \<Rightarrow> int \<Rightarrow> string \<Rightarrow> RawTcpMessage" where
  "syslog_rawmsg env stale txnr data =
     \<lparr>Message = copy_bytes (Message stale) data, Size = int (length data), Txnr = txnr,
      Client = client env, LocalPort = localPort env, UnixSocketPath = path env,
      ConfID = cfg_ConfID (config env), DontParseSD = cfg_DontParseSD (config env),
      Encoding = cfg_Encoding (config env), Format = cfg_Format (config env),
      ConnID = connID env\<rparr>"



text \<open>
  The data of the specification's scenarios: a client at 10.0.0.1 on port 2514, the
  first connection of a fresh forwarder, and a pooled buffer with stale contents.
\<close>

definition scenario_config :: SyslogConfig where
  "scenario_config =
     \<lparr>cfg_ConfID = ''01ARZ3NDEKTSV4RRFFQ69G5FAV'', cfg_DontParseSD = False,
      cfg_Encoding = ''utf8'', cfg_Format = ''rfc5424''\<rparr>"

definition scenario_env :: conn_env where
  "scenario_env =
     \<lparr>client = ''10.0.0.1'', localPort = 2514, path = [], config = scenario_config,
      connID = 1\<rparr>"

definition scenario_buffer :: "nat \<times> RawTcpMessage" where
  "scenario_buffer =
     (7, \<lparr>Message = ''XXXXXXXXXXXXXXXX'', Size = 16, Txnr = 0, Client = [], LocalPort = 0,
          UnixSocketPath = [], ConfID = [], DontParseSD = False, Encoding = [], Format = [],
          ConnID = 0\<rparr>)"

section \<open>The response cooker and the interleavings of one connection\<close>

text \<open>
  A response line of \<open>handleResponses\<close>: \<open>immediateSuccess\<close> writes
  \<open>"%d rsp 6 200 OK\n"\<close>, \<open>immediateFailure\<close> writes \<open>"%d rsp 6 500 KO\n"\<close>.
\<close>

datatype response = Rsp200 int | Rsp500 int

fun rsp_txnr :: "response \<Rightarrow> int" where
  "rsp_txnr (Rsp200 t) = t"
| "rsp_txnr (Rsp500 t) = t"

fun rsp_line :: "response \<Rightarrow> string" where
  "rsp_line (Rsp200 t) = FormatInt t @ '' rsp 6 200 OK'' @ [CHR 0x0A]"
| "rsp_line (Rsp500 t) = FormatInt t @ '' rsp 6 500 KO'' @ [CHR 0x0A]"

text \<open>
  The points of \<open>handleResponses\<close> between two calls on the forwarder: about to
  call \<open>Wait\<close>, \<open>GetSucc\<close>, \<open>GetFail\<close>, \<open>NextToCommit\<close> or \<open>Committed\<close> (for the
  txnr just answered), or returned.
\<close>

datatype cooker_pc = AtWait | AtGetSucc | AtGetFail | AtNextToCommit | AtCommitted int | Exited

text \<open>
  One connection: the handler goroutine and its response cooker share the forwarder.
  \<open>successes\<close> and \<open>failures\<close> are the cooker's local \<open>map[int]bool\<close>, which only
  ever hold \<open>true\<close>; \<open>cooked\<close> is what the cooker has written to the socket.
\<close>

record relp_conn =
  hs :: handler_state
  handler_done :: bool
  pc :: cooker_pc
  successes :: "int list"
  failures :: "int list"
  cooked :: "response list"

text \<open>
  The atomic actions that can be interleaved: the handler reads a line or its scanner
  ends; a parser worker or the broker's response loop reports an outcome for any
  connection and txnr; another goroutine adds a connection, removes one (as the
  service's \<open>RemoveAll\<close> does, for this connection too) or records a txnr of another
  connection; the cooker makes its next call. Each method of the forwarder is taken
  as one action.
\<close>

datatype action =
    ReadLine string "nat \<times> RawTcpMessage"
  | ScanEnds
  | Outcome_Succ nat int
  | Outcome_Fail nat int
  | Other_AddConn
  | Other_RemoveConn nat
  | Other_Received nat int
  | Other_Committed nat int
  | Cooker

definition set_forwarder :: "relp_conn \<Rightarrow> ackForwarder \<Rightarrow> relp_conn" where
  "set_forwarder c f = c\<lparr>hs := (hs c)\<lparr>forwarder := f\<rparr>\<rparr>"

definition cooker_step :: "nat \<Rightarrow> relp_conn \<Rightarrow> relp_conn option" where
  "cooker_step cid c =
     (let f = forwarder (hs c) in
      case pc c of
        AtWait \<Rightarrow>
          (case Wait f cid of
             None \<Rightarrow> None
           | Some True \<Rightarrow> Some (c\<lparr>pc := AtGetSucc\<rparr>)
           | Some False \<Rightarrow> Some (c\<lparr>pc := Exited\<rparr>))
      | AtGetSucc \<Rightarrow>
          (let (currentTxnr, f') = GetSucc f cid in
           if currentTxnr \<noteq> - 1
           then Some ((set_forwarder c f')
                        \<lparr>successes := List.insert currentTxnr (successes c), pc := AtNextToCommit\<rparr>)
           else Some ((set_forwarder c f')\<lparr>pc := AtGetFail\<rparr>))
      | AtGetFail \<Rightarrow>
          (let (currentTxnr, f') = GetFail f cid in
           if currentTxnr \<noteq> - 1
           then Some ((set_forwarder c f')
                        \<lparr>failures := List.insert currentTxnr (failures c), pc := AtNextToCommit\<rparr>)
           else Some ((set_forwarder c f')\<lparr>pc := AtNextToCommit\<rparr>))
      | AtNextToCommit \<Rightarrow>
          (let next = NextToCommit f cid in
           if next = - 1 then Some (c\<lparr>pc := AtWait\<rparr>)
           else if next \<in> set (successes c)
           then Some (c\<lparr>cooked := cooked c @ [Rsp200 next],
                        successes := removeAll next (successes c),
                        pc := AtCommitted next\<rparr>)
           else if next \<in> set (failures c)
           then Some (c\<lparr>cooked := cooked c @ [Rsp500 next],
                        failures := removeAll next (failures c),
                        pc := AtCommitted next\<rparr>)
           else Some (c\<lparr>pc := AtWait\<rparr>))
      | AtCommitted next \<Rightarrow>
          Some ((set_forwarder c (Committed f cid next))\<lparr>pc := AtNextToCommit\<rparr>)
      | Exited \<Rightarrow> None)"

definition exec :: "conn_env \<Rightarrow> action \<Rightarrow> relp_conn \<Rightarrow> relp_conn option" where
  "exec env a c =
     (let cid = connID env; f = forwarder (hs c) in
      case a of
        ReadLine line rented \<Rightarrow>
          (if handler_done c then None
           else
             (case handle_line env rented (hs c) line of
                (Continue, st') \<Rightarrow> Some (c\<lparr>hs := st'\<rparr>)
              | (_, st') \<Rightarrow>
                  Some (c\<lparr>hs := st'\<lparr>forwarder := RemoveConn (forwarder st') cid\<rparr>,
                          handler_done := True\<rparr>)))
      | ScanEnds \<Rightarrow>
          (if handler_done c then None
           else Some ((set_forwarder c (RemoveConn f cid))\<lparr>handler_done := True\<rparr>))
      | Outcome_Succ cid' txnr \<Rightarrow> Some (set_forwarder c (ForwardSucc f cid' txnr))
      | Outcome_Fail cid' txnr \<Rightarrow> Some (set_forwarder c (ForwardFail f cid' txnr))
      | Other_AddConn \<Rightarrow>
          (if fst (AddConn f) = cid then None else Some (set_forwarder c (snd (AddConn f))))
      | Other_RemoveConn cid' \<Rightarrow> Some (set_forwarder c (RemoveConn f cid'))
      | Other_Received cid' txnr \<Rightarrow>
          (if cid' = cid then None else Some (set_forwarder c (Received f cid' txnr)))
      | Other_Committed cid' txnr \<Rightarrow>
          (if cid' = cid then None else Some (set_forwarder c (Committed f cid' txnr)))
      | Cooker \<Rightarrow> cooker_step cid c)"

fun execs :: "conn_env \<Rightarrow> action list \<Rightarrow> relp_conn \<Rightarrow> relp_conn option" where
  "execs env [] c = Some c"
| "execs env (a # as) c = (case exec env a c of None \<Rightarrow> None | Some c' \<Rightarrow> execs env as c')"

text \<open>
  The connection as \<open>HandleConnection\<close> sets it up on a forwarder \<open>f\<close>: \<open>AddConn\<close>,
  \<open>previous = -1\<close>, the session not open, the cooker started with empty maps.
\<close>

definition new_conn :: "ackForwarder \<Rightarrow> relp_conn" where
  "new_conn f =
     \<lparr>hs = \<lparr>relpIsOpen = False, previous = - 1, forwarder = snd (AddConn f), trace = []\<rparr>,
      handler_done = False, pc = AtWait, successes = [], failures = [], cooked = []\<rparr>"

definition strictly_increasing :: "int list \<Rightarrow> bool" where
  "strictly_increasing xs = (\<forall>j < length xs. \<forall>i < j. xs ! i < xs ! j)"

text \<open>
  The txnrs that \<open>comm\<close> holds for a connection with the value \<open>true\<close>: what
  \<open>NextToCommit\<close> takes its minimum over.
\<close>

definition comm_keys :: "ackForwarder \<Rightarrow> nat \<Rightarrow> int set" where
  "comm_keys f cid =
     (case GetKey (comm f) cid of
        Some (Some h) \<Rightarrow> {k. (k, Some True) \<in> set h}
      | _ \<Rightarrow> {})"

text \<open>
  What holds in every state a connection can reach: the pending txnrs lie between 0
  and \<open>previous\<close>; the answered txnrs are increasing, at most \<open>previous\<close> and at
  most every pending txnr, and equal to one only while the cooker is about to call
  \<open>Committed\<close> for it.
\<close>

definition conn_inv :: "nat \<Rightarrow> relp_conn \<Rightarrow> bool" where
  "conn_inv cid c =
     (- 1 \<le> previous (hs c)
      \<and> (\<forall>k \<in> comm_keys (forwarder (hs c)) cid. - 1 < k \<and> k \<le> previous (hs c))
      \<and> (\<forall>x \<in> set (map rsp_txnr (cooked c)). x \<le> previous (hs c))
      \<and> sorted_wrt (<) (map rsp_txnr (cooked c))
      \<and> (\<forall>x \<in> set (map rsp_txnr (cooked c)). \<forall>k \<in> comm_keys (forwarder (hs c)) cid.
            x \<le> k \<and> (x = k \<longrightarrow> pc c = AtCommitted k)))"

text \<open>
  The specification's second scenario as a schedule: \<open>open\<close>, two \<open>syslog\<close> frames
  with txnrs 2 and 3, the outcome for 3 reported first, then the outcome for 2, the
  cooker running in between and after.
\<close>

definition out_of_order_schedule :: "action list" where
  "out_of_order_schedule =
     [ReadLine ''1 open 0'' scenario_buffer,
      ReadLine ''2 syslog 4 test'' scenario_buffer,
      ReadLine ''3 syslog 4 test'' scenario_buffer,
      Outcome_Succ 1 3, Cooker, Cooker, Cooker,
      Outcome_Succ 1 2, Cooker, Cooker, Cooker, Cooker, Cooker, Cooker, Cooker]"

section \<open>The parser workers\<close>










section \<open>The plugin controller\<close>

text \<open>
  The goroutine started by \<open>PluginController.listen\<close> reads the texts the scanner
  yields from the child's standard output. The decoders (\<open>json.Unmarshal\<close> into
  listener infos or metric families, \<open>UnmarshalMsg\<close>) are parameters; a failed
  decoding of listener infos carries its error text.
\<close>

record 'i InfosAndError =
  ie_infos :: "'i option"
  ie_err :: "string option"

record ('i, 'p, 'f) plugin_env =
  decode_infos :: "string \<Rightarrow> string + 'i"
  decode_msg :: "string \<Rightarrow> 'p option"
  decode_metrics :: "string \<Rightarrow> 'f option"
  has_registry :: bool

datatype ('i, 'p, 'f) ctl_event =
    Stash 'p
  | Unregister "'i option"
  | Register 'i
  | MetricsSend 'f
  | MetricsClose
  | ProcessKill bool

text \<open>
  The locals of the goroutine: \<open>once_sent\<close> is what \<open>once.Do\<close> has put on
  \<open>startErrorChan\<close> (nothing yet: \<open>None\<close>), which is what \<open>Start\<close> receives.
\<close>

record ('i, 'p, 'f) listener =
  initialized :: bool
  kill :: bool
  normalStop :: bool
  once_sent :: "'i InfosAndError option"
  infos :: "'i option"
  events :: "('i, 'p, 'f) ctl_event list"

definition once_Do :: "('i, 'p, 'f) listener \<Rightarrow> 'i InfosAndError \<Rightarrow> ('i, 'p, 'f) listener" where
  "once_Do l r = (case once_sent l of None \<Rightarrow> l\<lparr>once_sent := Some r\<rparr> | Some _ \<Rightarrow> l)"

definition error_only :: "string \<Rightarrow> 'i InfosAndError" where
  "error_only msg = \<lparr>ie_infos = None, ie_err = Some msg\<rparr>"

definition log :: "('i, 'p, 'f) listener \<Rightarrow> ('i, 'p, 'f) ctl_event list \<Rightarrow> ('i, 'p, 'f) listener" where
  "log l evs = l\<lparr>events := events l @ evs\<rparr>"

text \<open>
  One turn of the \<open>for scanner.Scan()\<close> loop; the boolean says whether the
  goroutine goes on reading (false: it returns).
\<close>

definition listen_step ::
  "('i, 'p, 'f) plugin_env \<Rightarrow> ('i, 'p, 'f) listener \<Rightarrow> string \<Rightarrow> bool \<times> ('i, 'p, 'f) listener" where
  "listen_step e l text =
     (let parts = SplitN text (CHR '' '') 2; command = parts ! 0 in
      if command = ''syslog'' then
        (if length parts = 2 then
           (if \<not> initialized l
            then (False,
                  (once_Do l (error_only ''Plugin sent a syslog message before being initialized''))
                    \<lparr>kill := True\<rparr>)
            else
              (case decode_msg e (parts ! 1) of
                 Some m \<Rightarrow> (True, log l [Stash m])
               | None \<Rightarrow> (False, l\<lparr>kill := True\<rparr>)))
         else (True, l))
      else if command = ''started'' then
        (if length parts = 2 then
           (case decode_infos e (parts ! 1) of
              Inr i \<Rightarrow>
                (True, once_Do (l\<lparr>initialized := True\<rparr>) \<lparr>ie_infos = Some i, ie_err = None\<rparr>)
            | Inl err \<Rightarrow> (False, (once_Do l (error_only err))\<lparr>kill := True\<rparr>))
         else (True, l))
      else if command = ''infos'' then
        (if length parts = 2 then
           (case decode_infos e (parts ! 1) of
              Inr newinfos \<Rightarrow>
                if has_registry e
                then (True, (log l [Unregister (infos l), Register newinfos])\<lparr>infos := Some newinfos\<rparr>)
                else (True, l)
            | Inl err \<Rightarrow> (True, l))
         else (True, l))
      else if command = ''stopped'' then (False, l\<lparr>normalStop := True\<rparr>)
      else if command = ''shutdown'' then (True, l)
      else if command = ''starterror'' \<or> command = ''conferror'' then
        (if length parts = 2 then (True, once_Do l (error_only (parts ! 1))) else (True, l))
      else if command = ''nolistenererror'' then (True, once_Do l (error_only ''No listener''))
      else if command = ''metrics'' then
        (if length parts = 2 then
           (case decode_metrics e (parts ! 1) of
              Some families \<Rightarrow> (True, log l [MetricsSend families])
            | None \<Rightarrow> (False, (log l [MetricsClose])\<lparr>kill := True\<rparr>))
         else (False, (log l [MetricsClose])\<lparr>kill := True\<rparr>))
      else (False, (once_Do l (error_only ''Unexpected message from plugin''))\<lparr>kill := True\<rparr>))"

text \<open>
  The child's output: the scanned texts and how the scanner ends after them (end
  of file, or an error with its text). \<open>listen_loop\<close> yields the locals when the
  goroutine leaves the loop and whether it left by \<open>return\<close> inside the loop.
\<close>

fun listen_loop ::
  "('i, 'p, 'f) plugin_env \<Rightarrow> ('i, 'p, 'f) listener \<Rightarrow> string list \<Rightarrow> bool \<times> ('i, 'p, 'f) listener" where
  "listen_loop e l [] = (False, l)"
| "listen_loop e l (text # rest) =
     (case listen_step e l text of
        (True, l') \<Rightarrow> listen_loop e l' rest
      | (False, l') \<Rightarrow> (True, l'))"

text \<open>
  The controller's fields that the goroutine and the reaper of \<open>Create\<close> write:
  the reaper closes \<open>ShutdownChan\<close> once the child process has exited.
\<close>

record controller =
  created :: bool
  started :: bool
  child_exited :: bool
  ShutdownChan_closed :: bool
  StopChan_closed :: bool

definition reaper :: "controller \<Rightarrow> controller" where
  "reaper ct = (if child_exited ct then ct\<lparr>ShutdownChan_closed := True\<rparr> else ct)"

definition Process_Kill :: "controller \<Rightarrow> controller" where
  "Process_Kill ct = ct\<lparr>child_exited := True\<rparr>"

text \<open>
  The deferred function of the goroutine. \<open>s.kill(true)\<close> followed by
  \<open><-s.ShutdownChan\<close> is the kill, then the reaper.
\<close>

definition listen_defer ::
  "('i, 'p, 'f) listener \<times> controller \<Rightarrow> ('i, 'p, 'f) listener \<times> controller" where
  "listen_defer lc =
     (let l = once_Do (fst lc) (error_only ''Unexpected end of plugin before it was initialized'');
          ct = (snd lc)\<lparr>started := False\<rparr>;
          (l', ct') =
            (if ShutdownChan_closed ct then (l, ct\<lparr>created := False\<rparr>)
             else if kill l
             then (log l [ProcessKill True], (reaper (Process_Kill ct))\<lparr>created := False\<rparr>)
             else if normalStop l then (l, ct)
             else (log l [ProcessKill True], (reaper (Process_Kill ct))\<lparr>created := False\<rparr>))
      in (l', ct'\<lparr>StopChan_closed := True\<rparr>))"

datatype scanner_end = AtEOF | ScanError string

text \<open>
  The whole goroutine on the child's output. \<open>exits_early\<close> says whether the child
  process has exited on its own (and the reaper has run) by the time the deferred
  function looks at \<open>ShutdownChan\<close>; after a scanner that ended at end of file the
  goroutine waits for \<open>ShutdownChan\<close> itself.
\<close>

definition new_listener :: "('i, 'p, 'f) listener" where
  "new_listener =
     \<lparr>initialized = False, kill = False, normalStop = False, once_sent = None,
      infos = None, events = []\<rparr>"

definition listen ::
  "('i, 'p, 'f) plugin_env \<Rightarrow> controller \<Rightarrow> bool \<Rightarrow> string list \<Rightarrow> scanner_end
     \<Rightarrow> ('i, 'p, 'f) listener \<times> controller" where
  "listen e ct exits_early texts fin =
     (let (returned, l) = listen_loop e new_listener texts;
          gone = reaper (ct\<lparr>child_exited := True\<rparr>)
      in
      if returned then listen_defer (l, if exits_early then gone else ct)
      else
        (case fin of
           AtEOF \<Rightarrow> listen_defer (l, gone)
         | ScanError err \<Rightarrow>
             listen_defer ((once_Do l (error_only err))\<lparr>kill := True\<rparr>,
                           if exits_early then gone else ct)))"

text \<open>
  \<open>PluginController.Start\<close>: the result it returns and the calls it makes. The
  writes to the child's standard input can fail (\<open>W_conf\<close>, \<open>W_start\<close> are the
  errors, if any); \<open>timed_out\<close> says that the three-second timer fires before the
  goroutine has sent anything. \<open>received\<close> is what the goroutine puts on
  \<open>startErrorChan\<close>.
\<close>

datatype start_call = W_call string | Shutdown_call

definition Start ::
  "string \<Rightarrow> controller \<Rightarrow> string option \<Rightarrow> string option \<Rightarrow> bool \<Rightarrow> 'i InfosAndError
     \<Rightarrow> ('i option \<times> string option) \<times> controller \<times> start_call list" where
  "Start name ct W_conf W_start timed_out received =
     (if \<not> created ct
      then ((None, Some (''Can not start, plugin '' @ [CHR 0x27] @ name @ [CHR 0x27]
                          @ '' has not been created'')), ct, [])
      else if started ct then ((None, Some (''Plugin already started: '' @ name)), ct, [])
      else
        let ct1 = ct\<lparr>StopChan_closed := False\<rparr>;
            rerr = (case W_conf of None \<Rightarrow> W_start | Some err \<Rightarrow> Some err);
            calls = (case W_conf of None \<Rightarrow> [W_call ''conf'', W_call ''start'']
                     | Some err \<Rightarrow> [W_call ''conf'']);
            res = (case rerr of
                     Some err \<Rightarrow> (None, Some err)
                   | None \<Rightarrow>
                       if timed_out then (None, Some ''Plugin failed to start before timeout'')
                       else (ie_infos received, ie_err received))
        in (case snd res of
              None \<Rightarrow> (res, ct1\<lparr>started := True\<rparr>, calls)
            | Some err \<Rightarrow> ((None, Some err), ct1, calls @ [Shutdown_call])))"

definition Start_on ::
  "('i, 'p, 'f) plugin_env \<Rightarrow> string \<Rightarrow> controller \<Rightarrow> bool \<Rightarrow> string list \<Rightarrow> scanner_end
     \<Rightarrow> ('i option \<times> string option)" where
  "Start_on e name ct exits_early texts fin =
     (case once_sent (fst (listen e ct exits_early texts fin)) of
        Some received \<Rightarrow> fst (Start name ct None None False received)
      | None \<Rightarrow> fst (Start name ct None None True (error_only [])))"

section \<open>The binder\<close>

text \<open>
  Modelled from the spec: \<open>IsStream\<close> is declared in a file of the binder package
  that is not among the sources; the stream networks are \<open>tcp\<close>, \<open>tcp4\<close>, \<open>tcp6\<close>,
  \<open>unix\<close> and \<open>unixpacket\<close>.
\<close>

definition IsStream :: "string \<Rightarrow> bool" where
  "IsStream lnet = (lnet \<in> set [''tcp'', ''tcp4'', ''tcp6'', ''unix'', ''unixpacket''])"

text \<open>
  The operating system is a parameter: \<open>net_Listen\<close> and \<open>net_ListenPacket\<close> take
  the network and the address and yield an error text or a handle;
  \<open>Write_fails\<close> says for which bytes the write to the child's socket fails.
\<close>

record binder_os =
  net_Listen :: "string \<Rightarrow> string \<Rightarrow> string + nat"
  net_ListenPacket :: "string \<Rightarrow> string \<Rightarrow> string + nat"
  Write_fails :: "string \<Rightarrow> bool"

datatype binder_event =
    ChildWrite string
  | ListenerClose nat
  | To_schan string "nat option"
  | To_pchan string string "nat option"

record binder_state =
  listeners :: "(string \<times> nat) list"
  sent :: "binder_event list"

definition tell :: "binder_state \<Rightarrow> binder_event list \<Rightarrow> binder_state" where
  "tell b evs = b\<lparr>sent := sent b @ evs\<rparr>"

text \<open>
  \<open>BinderListen\<close> and \<open>BinderPacket\<close> index \<open>parts[1]\<close> of the address split at
  the first colon, which panics for an address without a colon.
\<close>

definition BinderListen :: "binder_os \<Rightarrow> string \<Rightarrow> GoPanic + (string + nat)" where
  "BinderListen os addr =
     (let parts = SplitN addr (CHR '':'') 2 in
      if length parts < 2 then Inl IndexOutOfRange
      else Inr (net_Listen os (parts ! 0) (parts ! 1)))"

definition BinderPacket :: "binder_os \<Rightarrow> string \<Rightarrow> GoPanic + (string + nat)" where
  "BinderPacket os addr =
     (let parts = SplitN addr (CHR '':'') 2 in
      if length parts < 2 then Inl IndexOutOfRange
      else Inr (net_ListenPacket os (parts ! 0) (parts ! 1)))"

text \<open>
  One address of a \<open>listen\<close> request. \<open>uid\<close> is what the generator yields for a
  packet connection.
\<close>

definition listen_addr :: "binder_os \<Rightarrow> string \<Rightarrow> binder_state \<Rightarrow> string \<Rightarrow> GoPanic + binder_state" where
  "listen_addr os uid b addr =
     (let lnet = SplitN addr (CHR '':'') 2 ! 0 in
      if IsStream lnet then
        (case BinderListen os addr of
           Inl p \<Rightarrow> Inl p
         | Inr (Inr l) \<Rightarrow>
             if Write_fails os (''confirmlisten '' @ addr)
             then Inr (tell b [ChildWrite (''confirmlisten '' @ addr), ListenerClose l])
             else Inr ((tell b [ChildWrite (''confirmlisten '' @ addr)])
                         \<lparr>listeners := AList.update addr l (listeners b)\<rparr>)
         | Inr (Inl err) \<Rightarrow> Inr (tell b [ChildWrite (''error '' @ addr @ '' '' @ err)]))
      else
        (case BinderPacket os addr of
           Inl p \<Rightarrow> Inl p
         | Inr (Inr c) \<Rightarrow> Inr (tell b [To_pchan uid addr (Some c)])
         | Inr (Inl err) \<Rightarrow> Inr (tell b [ChildWrite (''error '' @ addr @ '' '' @ err)])))"

fun listen_addrs :: "binder_os \<Rightarrow> string \<Rightarrow> binder_state \<Rightarrow> string list \<Rightarrow> GoPanic + binder_state" where
  "listen_addrs os uid b [] = Inr b"
| "listen_addrs os uid b (addr # addrs) =
     (case listen_addr os uid b addr of
        Inl p \<Rightarrow> Inl p
      | Inr b' \<Rightarrow> listen_addrs os uid b' addrs)"

text \<open>
  One message read from the child by the second goroutine of \<open>binderOne\<close>; the
  boolean says whether the goroutine goes on (\<open>byebye\<close> ends it).
\<close>

definition binder_message ::
  "binder_os \<Rightarrow> string \<Rightarrow> binder_state \<Rightarrow> string \<Rightarrow> GoPanic + (bool \<times> binder_state)" where
  "binder_message os uid b text =
     (let rmsg = Trim text;
          command = SplitN rmsg (CHR '' '') 2 ! 0;
          args = Trim (drop (length command) rmsg)
      in
      if command = ''listen'' then
        (case listen_addrs os uid b (Split args (CHR '' '')) of
           Inl p \<Rightarrow> Inl p
         | Inr b' \<Rightarrow> Inr (True, b'))
      else if command = ''closeconn'' then
        Inr (True, tell b [To_schan args None, To_pchan args [] None])
      else if command = ''stoplisten'' then
        (case map_of (listeners b) args of
           Some l \<Rightarrow>
             Inr (True, (tell b [ListenerClose l, ChildWrite (''stopped '' @ args @ [CHR 0x0A])])
                          \<lparr>listeners := AList.delete args (listeners b)\<rparr>)
         | None \<Rightarrow> Inr (True, tell b [ChildWrite (''stopped '' @ args @ [CHR 0x0A])]))
      else if command = ''reset'' then
        Inr (True, (tell b (map (\<lambda>kv. ListenerClose (snd kv)) (listeners b)
                            @ [To_schan [] None, To_pchan [] [] None]))
                     \<lparr>listeners := []\<rparr>)
      else if command = ''byebye'' then Inr (False, b)
      else Inr (True, b))"

text \<open>
  What the first goroutine of \<open>binderOne\<close> sends to the child for a connection
  accepted on a stream listener.
\<close>

definition newconn_message :: "string \<Rightarrow> string \<Rightarrow> string" where
  "newconn_message uid addr = ''newconn '' @ uid @ '' '' @ addr @ [CHR 0x0A]"

definition newline_terminated :: "string \<Rightarrow> bool" where
  "newline_terminated s = (s \<noteq> [] \<and> last s = CHR 0x0A)"

section \<open>Facts about the hash maps\<close>

lemma GetKey_Set: "GetKey (Set h k v) k' = (if k' = k then Some v else GetKey h k')"
  by (simp add: GetKey_def Set_def update_conv')

lemma GetKey_Del: "GetKey (Del h k) k' = (if k' = k then None else GetKey h k')"
  by (simp add: GetKey_def Del_def delete_conv')

section \<open>The order of the cooker's responses\<close>



lemma set_update_subset:
  "(k, w) \<in> set (AList.update t v h) \<Longrightarrow> (k, w) \<in> set h \<or> (k = t \<and> w = v)"
  by (induction h) (auto split: if_splits)

lemma set_update_other:
  "k \<noteq> t \<Longrightarrow> ((k, w) \<in> set (AList.update t v h)) = ((k, w) \<in> set h)"
  by (induction h) auto

lemma set_delete: "((k, w) \<in> set (AList.delete t h)) = (k \<noteq> t \<and> (k, w) \<in> set h)"
  by (induction h) auto

lemma minimum_loop_spec:
  assumes "\<forall>k. (k, Some True) \<in> set h \<longrightarrow> k \<noteq> - 1"
  shows "(minimum_loop m h = - 1 \<longrightarrow> m = - 1 \<and> (\<forall>k. (k, Some True) \<notin> set h))
       \<and> (minimum_loop m h \<noteq> - 1 \<longrightarrow>
            ((minimum_loop m h, Some True) \<in> set h \<or> minimum_loop m h = m)
            \<and> (\<forall>k. (k, Some True) \<in> set h \<longrightarrow> minimum_loop m h \<le> k)
            \<and> (m \<noteq> - 1 \<longrightarrow> minimum_loop m h \<le> m))"
  using assms
proof (induction h arbitrary: m)
  case Nil
  then show ?case by simp
next
  case (Cons kv h)
  obtain key val where kv: "kv = (key, val)" by (cases kv)
  have ih: "\<forall>k. (k, Some True) \<in> set h \<longrightarrow> k \<noteq> - 1" using Cons.prems by auto
  note IH = Cons.IH [OF ih]
  show ?case
  proof (cases "val = Some True")
    case False
    then show ?thesis using IH [of m] kv by auto
  next
    case True
    then have k1: "key \<noteq> - 1" using Cons.prems kv by auto
    show ?thesis
    proof (cases "m = - 1 \<or> key < m")
      case True
      then have "minimum_loop m (kv # h) = minimum_loop key h"
        using kv \<open>val = Some True\<close> by auto
      then show ?thesis using IH [of key] k1 kv \<open>val = Some True\<close> True by auto
    next
      case False
      then have "minimum_loop m (kv # h) = minimum_loop m h"
        using kv \<open>val = Some True\<close> by auto
      then show ?thesis using IH [of m] kv \<open>val = Some True\<close> False by auto
    qed
  qed
qed

lemma NextToCommit_min:
  assumes "\<forall>k \<in> comm_keys f cid. - 1 < k" and "NextToCommit f cid \<noteq> - 1"
  shows "NextToCommit f cid \<in> comm_keys f cid \<and> (\<forall>k \<in> comm_keys f cid. NextToCommit f cid \<le> k)"
proof (cases "GetKey (comm f) cid")
  case None
  then show ?thesis using assms(2) by (simp add: NextToCommit_def)
next
  case (Some p)
  show ?thesis
  proof (cases p)
    case None
    then show ?thesis using assms(2) Some by (simp add: NextToCommit_def)
  next
    case (Some h)
    have K: "comm_keys f cid = {k. (k, Some True) \<in> set h}"
      using Some \<open>GetKey (comm f) cid = Some p\<close> by (simp add: comm_keys_def)
    have n: "NextToCommit f cid = minimum_loop (- 1) h"
      using Some \<open>GetKey (comm f) cid = Some p\<close> assms(2) by (auto simp: NextToCommit_def)
    have "\<forall>k. (k, Some True) \<in> set h \<longrightarrow> k \<noteq> - 1" using assms(1) K by auto
    from minimum_loop_spec [OF this, of "- 1"] assms(2) show ?thesis
      unfolding n K by auto
  qed
qed

lemma inner_Set_subset: "(k, w) \<in> set (Set h t v) \<Longrightarrow> (k, w) \<in> set h \<or> (k = t \<and> w = v)"
  unfolding Set_def by (rule set_update_subset)

lemma inner_Del_Set: "((k, w) \<in> set (Del (Set h t v) t)) = (k \<noteq> t \<and> (k, w) \<in> set h)"
  unfolding Set_def Del_def by (auto simp: set_delete set_update_other)

lemma comm_keys_Received:
  "comm_keys (Received f cid t) cid' \<subseteq> comm_keys f cid' \<union> (if cid' = cid then {t} else {})"
  by (auto simp: comm_keys_def Received_def GetKey_Set dest: inner_Set_subset
      split: option.splits if_splits)

lemma comm_keys_Committed_same:
  "comm_keys (Committed f cid t) cid = comm_keys f cid - {t}"
  by (auto simp: comm_keys_def Committed_def GetKey_Set inner_Del_Set split: option.splits)

lemma comm_keys_Committed_other:
  "cid' \<noteq> cid \<Longrightarrow> comm_keys (Committed f cid t) cid' = comm_keys f cid'"
  by (auto simp: comm_keys_def Committed_def GetKey_Set split: option.splits)

lemma comm_keys_queue_upd [simp]: "comm_keys (queue_upd f a q) cid = comm_keys f cid"
  by (simp add: comm_keys_def queue_upd_def)

lemma comm_keys_ForwardSucc [simp]: "comm_keys (ForwardSucc f c t) cid = comm_keys f cid"
  by (simp add: ForwardSucc_def split: option.splits)

lemma comm_keys_ForwardFail [simp]: "comm_keys (ForwardFail f c t) cid = comm_keys f cid"
  by (simp add: ForwardFail_def split: option.splits)

lemma comm_keys_GetSucc [simp]: "comm_keys (snd (GetSucc f c)) cid = comm_keys f cid"
  by (simp add: GetSucc_def split: option.splits prod.splits)

lemma comm_keys_GetFail [simp]: "comm_keys (snd (GetFail f c)) cid = comm_keys f cid"
  by (simp add: GetFail_def split: option.splits prod.splits)

lemma comm_keys_RemoveConn: "comm_keys (RemoveConn f c) cid \<subseteq> comm_keys f cid"
  by (auto simp: comm_keys_def RemoveConn_def RemoveConn_comm_def RemoveConn_fail_def
      RemoveConn_succ_def queue_upd_def GetKey_Del split: option.splits if_splits)

lemma comm_keys_AddConn_other:
  "fst (AddConn f) \<noteq> cid \<Longrightarrow> comm_keys (snd (AddConn f)) cid = comm_keys f cid"
  by (auto simp: comm_keys_def AddConn_def Let_def GetKey_Set split: option.splits)

lemma comm_keys_AddConn_new: "comm_keys (snd (AddConn f)) (fst (AddConn f)) = {}"
  by (simp add: comm_keys_def AddConn_def Let_def GetKey_Set)



lemma handle_command_keys:
  assumes "handle_command env rented st t command data = (out, st')"
  shows "previous st' = previous st
       \<and> comm_keys (forwarder st') (connID env) \<subseteq> comm_keys (forwarder st) (connID env) \<union> {t}"
  using assms comm_keys_Received [of "forwarder st" "connID env" t "connID env"]
  by (auto simp: handle_command_def Let_def emit_def split: if_splits)

lemma handle_line_keys:
  assumes "handle_line env rented st line = (out, st')"
  shows "previous st \<le> previous st'
       \<and> comm_keys (forwarder st') (connID env)
           \<subseteq> comm_keys (forwarder st) (connID env) \<union> {t. previous st < t \<and> t = previous st'}"
proof -
  let ?t = "fst (Atoi (SplitN line (CHR '' '') 4 ! 0))"
  show ?thesis
  proof (cases "?t \<le> previous st")
    case True
    then show ?thesis using assms by (auto simp: handle_line_def Let_def emit_def)
  next
    case False
    let ?st = "st\<lparr>previous := ?t\<rparr>"
    have p: "previous ?st = ?t" "forwarder ?st = forwarder st" by simp_all
    have c: "handle_command env rented ?st ?t cmd data = (out, st') \<Longrightarrow>
        previous st' = ?t \<and> comm_keys (forwarder st') (connID env)
           \<subseteq> comm_keys (forwarder st) (connID env) \<union> {?t}" for cmd data
      using handle_command_keys [of env rented ?st ?t cmd data out st'] by simp
    have r: "previous st' = ?t \<and> comm_keys (forwarder st') (connID env)
           \<subseteq> comm_keys (forwarder st) (connID env) \<union> {?t}"
      using assms False c
      by (auto simp: handle_line_def Let_def emit_def split: if_splits)
    then show ?thesis using False by auto
  qed
qed

lemma conn_invI:
  assumes "- 1 \<le> previous (hs c)"
    and "\<And>k. k \<in> comm_keys (forwarder (hs c)) cid \<Longrightarrow> - 1 < k \<and> k \<le> previous (hs c)"
    and "\<And>x. x \<in> set (map rsp_txnr (cooked c)) \<Longrightarrow> x \<le> previous (hs c)"
    and "sorted_wrt (<) (map rsp_txnr (cooked c))"
    and "\<And>x k. x \<in> set (map rsp_txnr (cooked c)) \<Longrightarrow> k \<in> comm_keys (forwarder (hs c)) cid
           \<Longrightarrow> x \<le> k \<and> (x = k \<longrightarrow> pc c = AtCommitted k)"
  shows "conn_inv cid c"
  unfolding conn_inv_def using assms by blast

lemma conn_invD:
  assumes "conn_inv cid c"
  shows "- 1 \<le> previous (hs c)"
    and "\<And>k. k \<in> comm_keys (forwarder (hs c)) cid \<Longrightarrow> - 1 < k \<and> k \<le> previous (hs c)"
    and "\<And>x. x \<in> set (map rsp_txnr (cooked c)) \<Longrightarrow> x \<le> previous (hs c)"
    and "sorted_wrt (<) (map rsp_txnr (cooked c))"
    and "\<And>x k. x \<in> set (map rsp_txnr (cooked c)) \<Longrightarrow> k \<in> comm_keys (forwarder (hs c)) cid
           \<Longrightarrow> x \<le> k \<and> (x = k \<longrightarrow> pc c = AtCommitted k)"
  using assms unfolding conn_inv_def by blast+

lemma conn_inv_same_keys:
  assumes "conn_inv cid c"
    and "previous (hs c') = previous (hs c)" and "cooked c' = cooked c"
    and "comm_keys (forwarder (hs c')) cid \<subseteq> comm_keys (forwarder (hs c)) cid"
    and "pc c' = pc c \<or> (\<forall>k. pc c \<noteq> AtCommitted k)"
  shows "conn_inv cid c'"
proof (rule conn_invI)
  note i = conn_invD [OF assms(1)]
  show "- 1 \<le> previous (hs c')" using i(1) assms(2) by simp
  show "- 1 < k \<and> k \<le> previous (hs c')" if "k \<in> comm_keys (forwarder (hs c')) cid" for k
  proof -
    have "k \<in> comm_keys (forwarder (hs c)) cid" using that assms(4) by blast
    then show ?thesis using i(2) assms(2) by simp
  qed
  show "x \<le> previous (hs c')" if "x \<in> set (map rsp_txnr (cooked c'))" for x
    using that i(3) assms(2,3) by simp
  show "sorted_wrt (<) (map rsp_txnr (cooked c'))" using i(4) assms(3) by simp
  show "x \<le> k \<and> (x = k \<longrightarrow> pc c' = AtCommitted k)"
    if "x \<in> set (map rsp_txnr (cooked c'))" "k \<in> comm_keys (forwarder (hs c')) cid" for x k
  proof -
    have k: "k \<in> comm_keys (forwarder (hs c)) cid" using that(2) assms(4) by blast
    have x: "x \<in> set (map rsp_txnr (cooked c))" using that(1) assms(3) by simp
    from i(5) [OF x k] assms(5) show ?thesis by auto
  qed
qed

lemma conn_inv_handler:
  assumes "conn_inv cid c"
    and "previous (hs c) \<le> previous (hs c')" and "cooked c' = cooked c" and "pc c' = pc c"
    and "comm_keys (forwarder (hs c')) cid
           \<subseteq> comm_keys (forwarder (hs c)) cid \<union> {t. previous (hs c) < t \<and> t = previous (hs c')}"
  shows "conn_inv cid c'"
proof (rule conn_invI)
  note i = conn_invD [OF assms(1)]
  have split: "k \<in> comm_keys (forwarder (hs c)) cid \<or> (previous (hs c) < k \<and> k = previous (hs c'))"
    if "k \<in> comm_keys (forwarder (hs c')) cid" for k
    using that assms(5) by blast
  show "- 1 \<le> previous (hs c')" using i(1) assms(2) by simp
  show "- 1 < k \<and> k \<le> previous (hs c')" if "k \<in> comm_keys (forwarder (hs c')) cid" for k
    using split [OF that] i(1) i(2) [of k] assms(2) by auto
  show "x \<le> previous (hs c')" if "x \<in> set (map rsp_txnr (cooked c'))" for x
  proof -
    have "x \<in> set (map rsp_txnr (cooked c))" using that assms(3) by simp
    from i(3) [OF this] assms(2) show ?thesis by simp
  qed
  show "sorted_wrt (<) (map rsp_txnr (cooked c'))" using i(4) assms(3) by simp
  show "x \<le> k \<and> (x = k \<longrightarrow> pc c' = AtCommitted k)"
    if "x \<in> set (map rsp_txnr (cooked c'))" "k \<in> comm_keys (forwarder (hs c')) cid" for x k
  proof -
    have x: "x \<in> set (map rsp_txnr (cooked c))" using that(1) assms(3) by simp
    from split [OF that(2)] show ?thesis
    proof
      assume k: "k \<in> comm_keys (forwarder (hs c)) cid"
      from i(5) [OF x k] assms(4) show ?thesis by simp
    next
      assume "previous (hs c) < k \<and> k = previous (hs c')"
      then show ?thesis using i(3) [OF x] by simp
    qed
  qed
qed

lemma conn_inv_emit:
  assumes "conn_inv cid c" and "\<forall>k. pc c \<noteq> AtCommitted k"
    and "n \<in> comm_keys (forwarder (hs c)) cid"
    and "\<forall>k \<in> comm_keys (forwarder (hs c)) cid. n \<le> k"
    and "hs c' = hs c" and "map rsp_txnr (cooked c') = map rsp_txnr (cooked c) @ [n]"
    and "pc c' = AtCommitted n"
  shows "conn_inv cid c'"
proof (rule conn_invI)
  note i = conn_invD [OF assms(1)]
  have lt: "x < n" if "x \<in> set (map rsp_txnr (cooked c))" for x
  proof -
    from i(5) [OF that assms(3)] assms(2) have "x \<le> n" "x \<noteq> n" by auto
    then show ?thesis by simp
  qed
  have mem: "x = n \<or> x \<in> set (map rsp_txnr (cooked c))"
    if "x \<in> set (map rsp_txnr (cooked c'))" for x
    using that unfolding assms(6) by auto
  show "- 1 \<le> previous (hs c')" using i(1) assms(5) by simp
  show "- 1 < k \<and> k \<le> previous (hs c')" if "k \<in> comm_keys (forwarder (hs c')) cid" for k
    using that i(2) [of k] assms(5) by simp
  show "x \<le> previous (hs c')" if "x \<in> set (map rsp_txnr (cooked c'))" for x
    using mem [OF that] i(3) [of x] i(2) [OF assms(3)] assms(5) by auto
  show "sorted_wrt (<) (map rsp_txnr (cooked c'))"
    unfolding assms(6) using i(4) lt by (simp add: sorted_wrt_append)
  show "x \<le> k \<and> (x = k \<longrightarrow> pc c' = AtCommitted k)"
    if "x \<in> set (map rsp_txnr (cooked c'))" "k \<in> comm_keys (forwarder (hs c')) cid" for x k
  proof -
    have k: "k \<in> comm_keys (forwarder (hs c)) cid" using that(2) assms(5) by simp
    then have nk: "n \<le> k" using assms(4) by blast
    from mem [OF that(1)] show ?thesis
    proof
      assume "x = n" then show ?thesis using nk assms(7) by simp
    next
      assume "x \<in> set (map rsp_txnr (cooked c))"
      then have "x < n" by (rule lt)
      then show ?thesis using nk by simp
    qed
  qed
qed

lemma conn_inv_committed:
  assumes "conn_inv cid c" and "pc c = AtCommitted n"
    and "previous (hs c') = previous (hs c)" and "cooked c' = cooked c"
    and "comm_keys (forwarder (hs c')) cid = comm_keys (forwarder (hs c)) cid - {n}"
  shows "conn_inv cid c'"
proof (rule conn_invI)
  note i = conn_invD [OF assms(1)]
  show "- 1 \<le> previous (hs c')" using i(1) assms(3) by simp
  show "- 1 < k \<and> k \<le> previous (hs c')" if "k \<in> comm_keys (forwarder (hs c')) cid" for k
    using that i(2) [of k] assms(3,5) by simp
  show "x \<le> previous (hs c')" if "x \<in> set (map rsp_txnr (cooked c'))" for x
    using that i(3) [of x] assms(3,4) by simp
  show "sorted_wrt (<) (map rsp_txnr (cooked c'))" using i(4) assms(4) by simp
  show "x \<le> k \<and> (x = k \<longrightarrow> pc c' = AtCommitted k)"
    if "x \<in> set (map rsp_txnr (cooked c'))" "k \<in> comm_keys (forwarder (hs c')) cid" for x k
  proof -
    have k: "k \<in> comm_keys (forwarder (hs c)) cid" "k \<noteq> n" using that(2) assms(5) by auto
    have x: "x \<in> set (map rsp_txnr (cooked c))" using that(1) assms(4) by simp
    from i(5) [OF x k(1)] assms(2) k(2) show ?thesis by auto
  qed
qed



lemma set_forwarder_simps [simp]:
  "previous (hs (set_forwarder c f)) = previous (hs c)"
  "forwarder (hs (set_forwarder c f)) = f"
  "cooked (set_forwarder c f) = cooked c"
  "pc (set_forwarder c f) = pc c"
  "successes (set_forwarder c f) = successes c"
  "failures (set_forwarder c f) = failures c"
  by (simp_all add: set_forwarder_def)

lemma conn_inv_set_forwarder:
  assumes "conn_inv cid c" and "comm_keys f cid \<subseteq> comm_keys (forwarder (hs c)) cid"
  shows "conn_inv cid (set_forwarder c f)"
  by (rule conn_inv_same_keys [OF assms(1)]) (use assms(2) in simp_all)

lemma cooker_step_inv:
  assumes "cooker_step cid c = Some c'" and "conn_inv cid c"
  shows "conn_inv cid c'"
proof (cases "pc c")
  case AtWait
  then have "hs c' = hs c \<and> cooked c' = cooked c"
    using assms(1) by (auto simp: cooker_step_def Let_def split: option.splits bool.splits)
  then show ?thesis using AtWait by (intro conn_inv_same_keys [OF assms(2)]) simp_all
next
  case AtGetSucc
  obtain t f' where g: "GetSucc (forwarder (hs c)) cid = (t, f')"
    by (cases "GetSucc (forwarder (hs c)) cid")
  have k: "comm_keys f' cid = comm_keys (forwarder (hs c)) cid"
    using comm_keys_GetSucc [of "forwarder (hs c)" cid cid] g by simp
  have "previous (hs c') = previous (hs c) \<and> forwarder (hs c') = f' \<and> cooked c' = cooked c"
    using assms(1) AtGetSucc g by (auto simp: cooker_step_def Let_def split: if_splits)
  then show ?thesis using AtGetSucc k by (intro conn_inv_same_keys [OF assms(2)]) simp_all
next
  case AtGetFail
  obtain t f' where g: "GetFail (forwarder (hs c)) cid = (t, f')"
    by (cases "GetFail (forwarder (hs c)) cid")
  have k: "comm_keys f' cid = comm_keys (forwarder (hs c)) cid"
    using comm_keys_GetFail [of "forwarder (hs c)" cid cid] g by simp
  have "previous (hs c') = previous (hs c) \<and> forwarder (hs c') = f' \<and> cooked c' = cooked c"
    using assms(1) AtGetFail g by (auto simp: cooker_step_def Let_def split: if_splits)
  then show ?thesis using AtGetFail k by (intro conn_inv_same_keys [OF assms(2)]) simp_all
next
  case AtNextToCommit
  let ?n = "NextToCommit (forwarder (hs c)) cid"
  have pcn: "\<forall>k. pc c \<noteq> AtCommitted k" using AtNextToCommit by simp
  show ?thesis
  proof (cases "pc c' = AtWait")
    case True
    then have "hs c' = hs c \<and> cooked c' = cooked c"
      using assms(1) AtNextToCommit by (auto simp: cooker_step_def Let_def split: if_splits)
    then show ?thesis using pcn by (intro conn_inv_same_keys [OF assms(2)]) simp_all
  next
    case False
    then have e: "?n \<noteq> - 1" "hs c' = hs c" "map rsp_txnr (cooked c') = map rsp_txnr (cooked c) @ [?n]"
      "pc c' = AtCommitted ?n"
      using assms(1) AtNextToCommit by (auto simp: cooker_step_def Let_def split: if_splits)
    have "\<forall>k \<in> comm_keys (forwarder (hs c)) cid. - 1 < k"
      using conn_invD(2) [OF assms(2)] by blast
    from NextToCommit_min [OF this e(1)]
    show ?thesis
      by (intro conn_inv_emit [OF assms(2) pcn _ _ e(2,3,4)]) simp_all
  qed
next
  case (AtCommitted n)
  then have c': "c' = (set_forwarder c (Committed (forwarder (hs c)) cid n))\<lparr>pc := AtNextToCommit\<rparr>"
    using assms(1) by (simp add: cooker_step_def Let_def)
  show ?thesis
    by (rule conn_inv_committed [OF assms(2) AtCommitted])
      (simp_all add: c' comm_keys_Committed_same)
next
  case Exited
  then show ?thesis using assms(1) by (simp add: cooker_step_def Let_def)
qed

lemma exec_inv:
  assumes "exec env a c = Some c'" and "conn_inv (connID env) c"
  shows "conn_inv (connID env) c'"
proof (cases a)
  case (ReadLine line rented)
  obtain out st' where h: "handle_line env rented (hs c) line = (out, st')"
    by (cases "handle_line env rented (hs c) line")
  note k = handle_line_keys [OF h]
  have mid: "conn_inv (connID env) (c\<lparr>hs := st'\<rparr>)"
    by (rule conn_inv_handler [OF assms(2)]) (use k in simp_all)
  show ?thesis
  proof (cases "out = Continue")
    case True
    then have "c' = c\<lparr>hs := st'\<rparr>" using assms(1) ReadLine h by (simp add: exec_def Let_def split: if_splits)
    then show ?thesis using mid by simp
  next
    case False
    then have c': "c' = c\<lparr>hs := st'\<lparr>forwarder := RemoveConn (forwarder st') (connID env)\<rparr>,
                          handler_done := True\<rparr>"
      using assms(1) ReadLine h by (cases out) (simp_all add: exec_def Let_def split: if_splits)
    show ?thesis
      by (rule conn_inv_same_keys [OF mid]) (simp_all add: c' comm_keys_RemoveConn)
  qed
next
  case ScanEnds
  then have c': "c' = (set_forwarder c (RemoveConn (forwarder (hs c)) (connID env)))\<lparr>handler_done := True\<rparr>"
    using assms(1) by (simp add: exec_def Let_def split: if_splits)
  show ?thesis
    by (rule conn_inv_same_keys [OF assms(2)]) (simp_all add: c' comm_keys_RemoveConn)
next
  case (Outcome_Succ cid' t)
  then have c': "c' = set_forwarder c (ForwardSucc (forwarder (hs c)) cid' t)"
    using assms(1) by (simp add: exec_def Let_def)
  show ?thesis unfolding c' by (rule conn_inv_set_forwarder [OF assms(2)]) simp
next
  case (Outcome_Fail cid' t)
  then have c': "c' = set_forwarder c (ForwardFail (forwarder (hs c)) cid' t)"
    using assms(1) by (simp add: exec_def Let_def)
  show ?thesis unfolding c' by (rule conn_inv_set_forwarder [OF assms(2)]) simp
next
  case Other_AddConn
  then have c': "c' = set_forwarder c (snd (AddConn (forwarder (hs c))))"
    and ne: "fst (AddConn (forwarder (hs c))) \<noteq> connID env"
    using assms(1) by (simp_all add: exec_def Let_def split: if_splits)
  show ?thesis unfolding c'
    by (rule conn_inv_set_forwarder [OF assms(2)]) (simp add: comm_keys_AddConn_other [OF ne])
next
  case (Other_RemoveConn cid')
  then have c': "c' = set_forwarder c (RemoveConn (forwarder (hs c)) cid')"
    using assms(1) by (simp add: exec_def Let_def)
  show ?thesis unfolding c'
    by (rule conn_inv_set_forwarder [OF assms(2)]) (rule comm_keys_RemoveConn)
next
  case (Other_Received cid' t)
  then have c': "c' = set_forwarder c (Received (forwarder (hs c)) cid' t)"
    and ne: "cid' \<noteq> connID env"
    using assms(1) by (simp_all add: exec_def Let_def split: if_splits)
  show ?thesis unfolding c'
    by (rule conn_inv_set_forwarder [OF assms(2)])
      (use comm_keys_Received [of "forwarder (hs c)" cid' t "connID env"] ne in auto)
next
  case (Other_Committed cid' t)
  then have c': "c' = set_forwarder c (Committed (forwarder (hs c)) cid' t)"
    and ne: "cid' \<noteq> connID env"
    using assms(1) by (simp_all add: exec_def Let_def split: if_splits)
  have "connID env \<noteq> cid'" using ne by simp
  then show ?thesis unfolding c'
    by (intro conn_inv_set_forwarder [OF assms(2)]) (simp add: comm_keys_Committed_other)
next
  case Cooker
  then have "cooker_step (connID env) c = Some c'" using assms(1) by (simp add: exec_def Let_def)
  then show ?thesis using assms(2) by (rule cooker_step_inv)
qed

lemma execs_inv:
  "execs env sched c = Some c' \<Longrightarrow> conn_inv (connID env) c \<Longrightarrow> conn_inv (connID env) c'"
proof (induction sched arbitrary: c)
  case Nil
  then show ?case by simp
next
  case (Cons a sched)
  then obtain c1 where s: "exec env a c = Some c1" "execs env sched c1 = Some c'"
    by (auto split: option.splits)
  from Cons.IH [OF s(2) exec_inv [OF s(1) Cons.prems(2)]] show ?case .
qed

lemma new_conn_inv: "conn_inv (fst (AddConn f)) (new_conn f)"
  by (rule conn_invI) (simp_all add: new_conn_def comm_keys_AddConn_new)

lemma strictly_increasing_sorted: "sorted_wrt (<) xs \<Longrightarrow> strictly_increasing xs"
  by (auto simp: strictly_increasing_def sorted_wrt_iff_nth_less)

text \<open>
  C1. Whatever the interleaving of the handler's reads, the outcomes reported for any
  connection and txnr (in any order, repeated or never announced), the activity of
  other connections and the cooker's own calls, the txnrs of the response lines the
  cooker has written on a connection are strictly increasing.
\<close>

theorem responses_strictly_increasing:
  assumes "connID env = fst (AddConn f)"
    and "execs env sched (new_conn f) = Some c"
  shows "strictly_increasing (map rsp_txnr (cooked c))"
proof -
  have "conn_inv (connID env) (new_conn f)" unfolding assms(1) by (rule new_conn_inv)
  from execs_inv [OF assms(2) this] have "conn_inv (connID env) c" .
  then show ?thesis by (intro strictly_increasing_sorted conn_invD(4))
qed



theorem responses_strictly_increasing_witness:
  "connID scenario_env = fst (AddConn newAckForwarder)
   \<and> map_option (\<lambda>c. (pc c, cooked c))
        (execs scenario_env out_of_order_schedule (new_conn newAckForwarder))
      = Some (AtWait, [Rsp200 2, Rsp200 3])
   \<and> strictly_increasing [2, 3]"
proof -
  let ?start = "\<lparr>hs = \<lparr>relpIsOpen = False, previous = - 1,
          forwarder =
            \<lparr>succ = [(1, Some 0)], fail = [(1, Some 1)],
               comm = [(1, Some [])], next_conn = 1,
               queues = [\<lparr>items = [], disposed = False\<rparr>, \<lparr>items = [], disposed = False\<rparr>]\<rparr>,
          trace = []\<rparr>,
    handler_done = False, pc = AtWait, successes = [], failures = [], cooked = []\<rparr>"
  let ?msg = "\<lambda>t. \<lparr>Message = ''testXXXXXXXXXXXX'', Size = 4, Txnr = t,
                  Client = ''10.0.0.1'', LocalPort = 2514, UnixSocketPath = [],
                  ConfID = ''01ARZ3NDEKTSV4RRFFQ69G5FAV'', DontParseSD = False,
                  Encoding = ''utf8'', Format = ''rfc5424'', ConnID = 1\<rparr>"
  let ?final = "\<lparr>hs = \<lparr>relpIsOpen = True, previous = 3,
           forwarder =
             \<lparr>succ = [(1, Some 0)], fail = [(1, Some 1)],
                comm = [(1, Some [])], next_conn = 1,
                queues = [\<lparr>items = [], disposed = False\<rparr>, \<lparr>items = [], disposed = False\<rparr>]\<rparr>,
           trace =
             [ConnWrite ''1 rsp 7 200 OK\<newline>\<newline>'', PoolGet 7, IncomingMsgsInc ''10.0.0.1'',
              RawPut 7 (?msg 2), PoolGet 7, IncomingMsgsInc ''10.0.0.1'', RawPut 7 (?msg 3)]\<rparr>,
     handler_done = False, pc = AtWait, successes = [], failures = [],
     cooked = [Rsp200 2, Rsp200 3]\<rparr>"
  have n: "new_conn newAckForwarder = ?start"
    by (simp add: new_conn_def AddConn_def newAckForwarder_def Let_def Set_def NewIntQueue_def)
  have c: "connID scenario_env = fst (AddConn newAckForwarder)"
    by (simp add: scenario_env_def AddConn_def newAckForwarder_def Let_def)
  have e: "execs scenario_env out_of_order_schedule ?start = Some ?final"
    by code_simp
  have e': "execs scenario_env out_of_order_schedule (new_conn newAckForwarder) = Some ?final"
    unfolding n by (rule e)
  show ?thesis
    using responses_strictly_increasing [OF c e'] c by (simp add: e')
qed
section \<open>The connection handler\<close>


lemma SplitN_from_nonempty: "SplitN_from sep cur s n \<noteq> []"
  by (induction s arbitrary: cur n) auto

lemma handle_line_not_increasing:
  assumes "fst (Atoi (SplitN line (CHR '' '') 4 ! 0)) \<le> previous st"
  shows "handle_line env rented st line
           = (Return, st\<lparr>trace := trace st @ [RelpProtocolErrorsInc (client env)]\<rparr>)"
  using assms by (simp add: handle_line_def Let_def emit_def)


text \<open>
  C2. A scanned line whose txnr (what \<open>strconv.Atoi\<close> yields for the first piece of
  the line) is not greater than \<open>previous\<close> makes the handler return at once: the
  protocol-error counter of the client is incremented once, the session flag,
  \<open>previous\<close> and the forwarder are untouched, no command is looked at and the rest of
  the lines is not read. \<open>HandleConnection\<close> starts with \<open>previous = -1\<close>, so for the
  first line the comparison is against \<open>-1\<close>; what is left is the deferred
  \<open>RemoveConn\<close>.
\<close>

theorem txnr_not_increasing_closes_connection:
  "(fst (Atoi (SplitN line (CHR '' '') 4 ! 0)) \<le> previous st \<longrightarrow>
      handle_line env rented st line
        = (Return, st\<lparr>trace := trace st @ [RelpProtocolErrorsInc (client env)]\<rparr>)
      \<and> handle_lines env st ((line, rented) # rest)
        = (Return, st\<lparr>trace := trace st @ [RelpProtocolErrorsInc (client env)]\<rparr>))
   \<and> (fst (Atoi (SplitN line (CHR '' '') 4 ! 0)) \<le> - 1 \<longrightarrow>
      HandleConnection f cl port pth cfg ((line, rented) # rest)
        = (Return, \<lparr>relpIsOpen = False, previous = - 1,
                    forwarder = RemoveConn (snd (AddConn f)) (fst (AddConn f)),
                    trace = [RelpProtocolErrorsInc cl]\<rparr>))"
proof -
  have "fst (Atoi (SplitN line (CHR '' '') 4 ! 0)) \<le> - 1 \<Longrightarrow>
      HandleConnection f cl port pth cfg ((line, rented) # rest)
        = (Return, \<lparr>relpIsOpen = False, previous = - 1,
                    forwarder = RemoveConn (snd (AddConn f)) (fst (AddConn f)),
                    trace = [RelpProtocolErrorsInc cl]\<rparr>)"
    by (simp add: HandleConnection_def Let_def handle_line_not_increasing split_beta)
  then show ?thesis
    by (simp add: handle_line_not_increasing)
qed


theorem txnr_not_increasing_closes_connection_witness:
  "fst (Atoi (SplitN ''4 syslog 4 test'' (CHR '' '') 4 ! 0)) \<le> previous
      \<lparr>relpIsOpen = True, previous = 5, forwarder = snd (AddConn newAckForwarder), trace = []\<rparr>
   \<and> handle_lines scenario_env
        \<lparr>relpIsOpen = True, previous = 5, forwarder = snd (AddConn newAckForwarder), trace = []\<rparr>
        [(''4 syslog 4 test'', scenario_buffer), (''6 close 0'', scenario_buffer)]
      = (Return, \<lparr>relpIsOpen = True, previous = 5, forwarder = snd (AddConn newAckForwarder),
                  trace = [RelpProtocolErrorsInc ''10.0.0.1'']\<rparr>)
   \<and> fst (Atoi (SplitN ''-1 open 0'' (CHR '' '') 4 ! 0)) \<le> - 1
   \<and> HandleConnection newAckForwarder ''10.0.0.1'' 2514 [] scenario_config
        [(''-1 open 0'', scenario_buffer)]
      = (Return, \<lparr>relpIsOpen = False, previous = - 1,
                  forwarder = RemoveConn (snd (AddConn newAckForwarder)) (fst (AddConn newAckForwarder)),
                  trace = [RelpProtocolErrorsInc ''10.0.0.1'']\<rparr>)"
proof -
  have a: "fst (Atoi (SplitN ''4 syslog 4 test'' (CHR '' '') 4 ! 0)) = 4" by code_simp
  have b: "fst (Atoi (SplitN ''-1 open 0'' (CHR '' '') 4 ! 0)) = - 1" by code_simp
  have c: "client scenario_env = ''10.0.0.1''" by (simp add: scenario_env_def)
  show ?thesis
    using txnr_not_increasing_closes_connection
      [of "''4 syslog 4 test''"
          "\<lparr>relpIsOpen = True, previous = 5, forwarder = snd (AddConn newAckForwarder), trace = []\<rparr>"
          scenario_env scenario_buffer "[(''6 close 0'', scenario_buffer)]"]
      txnr_not_increasing_closes_connection
      [of "''-1 open 0''" _ _ scenario_buffer "[]" newAckForwarder "''10.0.0.1''" 2514 "[]"
          scenario_config]
    by (simp add: a b c)
qed

section \<open>The frame splitter against the specification's algorithm\<close>


lemma wrap64_id: "- (2 ^ 63) \<le> x \<Longrightarrow> x < 2 ^ 63 \<Longrightarrow> wrap64 x = x"
  unfolding wrap64_def by (simp add: mod_pos_pos_trivial)


lemma RelpSplit_unfold:
  "RelpSplit data =
     (if TrimLeft data = [] then Inr (0, None, None)
      else if length (FieldsFunc (TrimLeft data)) < 3 then Inr (0, None, None)
      else if length (FieldsFunc (TrimLeft data)) = 3 \<and> int (length data) < header_advance data
      then Inr (0, None, None)
      else
     (case Atoi (FieldsFunc (TrimLeft data) ! 0) of
               (_, Some err) \<Rightarrow> Inr (0, None, Some err)
             | (_, None) \<Rightarrow>
                (case Atoi (FieldsFunc (TrimLeft data) ! 2) of
                   (_, Some err) \<Rightarrow> Inr (0, None, Some err)
                 | (datalen, None) \<Rightarrow>
                     if datalen = 0 then Inr (header_advance data, Some (FieldsFunc (TrimLeft data) ! 0 @ '' '' @ FieldsFunc (TrimLeft data) ! 1 @ '' '' @ FieldsFunc (TrimLeft data) ! 2), None)
                     else
                       let advance' = wrap64 (header_advance data + wrap64 (datalen + 1)) in
                       if advance' \<le> int (length data) then
                         (if advance' < 0 then Inl SliceBoundsOutOfRange
                          else Inr (advance', Some (Trim (take (nat advance') data)), None))
                       else Inr (0, None, None))))"
  unfolding RelpSplit_def header_advance_def Let_def by (rule refl | simp)





section \<open>The frame splitter on a framed stream\<close>



lemma is_digit_not_space: "is_digit c \<Longrightarrow> \<not> splitSpaceOrLF c"
  by (auto simp: is_digit_def splitSpaceOrLF_def)

lemma is_digit_not_sign: "is_digit c \<Longrightarrow> c \<noteq> CHR ''-'' \<and> c \<noteq> CHR ''+''"
  by (auto simp: is_digit_def)

lemma of_char_digit_char: "n < 10 \<Longrightarrow> (of_char (digit_char n) :: nat) = 48 + n"
  by (simp add: digit_char_def)

lemma is_digit_digit_char: "n < 10 \<Longrightarrow> is_digit (digit_char n)"
  by (simp add: is_digit_def of_char_digit_char)

lemma Itoa_digits: "list_all is_digit (Itoa n)"
  by (induction n rule: Itoa.induct) (subst Itoa.simps, simp add: is_digit_digit_char)

lemma Itoa_nonempty: "Itoa n \<noteq> []"
  by (subst Itoa.simps) simp

lemma digits_value_snoc: "digits_value (s @ [c]) = digits_value s * 10 + (int (of_char c) - 48)"
  by (simp add: digits_value_def)

lemma digits_value_Itoa: "digits_value (Itoa n) = int n"
proof (induction n rule: Itoa.induct)
  case (1 n)
  show ?case
  proof (cases "n < 10")
    case True
    then show ?thesis
      by (subst Itoa.simps) (simp add: digits_value_def of_char_digit_char)
  next
    case False
    then have "digits_value (Itoa n) = int (n div 10) * 10 + int (n mod 10)"
      using 1 by (subst Itoa.simps) (simp add: digits_value_snoc of_char_digit_char)
    then show ?thesis by (simp add: zdiv_int zmod_int)
  qed
qed

lemma Itoa_head: "\<exists>c cs. Itoa n = c # cs \<and> is_digit c"
  using Itoa_digits [of n] Itoa_nonempty [of n] by (cases "Itoa n") auto

lemma Atoi_Itoa: "n < 2 ^ 63 \<Longrightarrow> Atoi (Itoa n) = (int n, None)"
proof -
  assume n: "n < 2 ^ 63"
  obtain c cs where h: "Itoa n = c # cs" "is_digit c" using Itoa_head by blast
  have u: "unsigned_part (Itoa n) = Itoa n"
    using h is_digit_not_sign by (simp add: unsigned_part_def)
  have ng: "\<not> is_negative (Itoa n)"
    using h is_digit_not_sign by (simp add: is_negative_def)
  have "int n < 2 ^ 63" using n by (metis of_nat_less_iff of_nat_numeral of_nat_power)
  then show ?thesis
    unfolding Atoi_def Let_def u
    using ng Itoa_digits [of n] Itoa_nonempty [of n] by (simp add: digits_value_Itoa)
qed

lemma FieldsFunc_from_token:
  "\<not> list_ex splitSpaceOrLF tok \<Longrightarrow> FieldsFunc_from cur (tok @ xs) = FieldsFunc_from (cur @ tok) xs"
  by (induction tok arbitrary: cur) auto

lemma FieldsFunc_from_sep:
  "splitSpaceOrLF w \<Longrightarrow> cur \<noteq> [] \<Longrightarrow> FieldsFunc_from cur (w # xs) = cur # FieldsFunc_from [] xs"
  by simp

lemma FieldsFunc_token_sep:
  "tok \<noteq> [] \<Longrightarrow> \<not> list_ex splitSpaceOrLF tok \<Longrightarrow> splitSpaceOrLF w \<Longrightarrow>
   FieldsFunc_from [] (tok @ w # xs) = tok # FieldsFunc_from [] xs"
  by (simp add: FieldsFunc_from_token)

lemma Itoa_no_space: "\<not> list_ex splitSpaceOrLF (Itoa n)"
  using Itoa_digits [of n] is_digit_not_space
  by (auto simp: list_all_iff list_ex_iff)

lemma dropWhile_hd: "xs \<noteq> [] \<Longrightarrow> \<not> P (hd xs) \<Longrightarrow> dropWhile P xs = xs"
  by (cases xs) auto

lemma Trim_id:
  assumes "s \<noteq> []" "\<not> splitSpaceOrLF (hd s)" "\<not> splitSpaceOrLF (last s)"
  shows "Trim s = s"
proof -
  have 1: "dropWhile splitSpaceOrLF s = s"
    using assms by (cases s) auto
  have "rev s \<noteq> []" "hd (rev s) = last s" using assms by (auto simp: hd_rev)
  then have 2: "dropWhile splitSpaceOrLF (rev s) = rev s"
    using assms by (intro dropWhile_hd) auto
  show ?thesis by (simp add: Trim_def 1 2)
qed

lemma Trim_snoc_space:
  assumes "s \<noteq> []" "\<not> splitSpaceOrLF (hd s)" "\<not> splitSpaceOrLF (last s)" "splitSpaceOrLF w"
  shows "Trim (s @ [w]) = s"
proof -
  have 1: "dropWhile splitSpaceOrLF (s @ [w]) = s @ [w]"
    using assms by (cases s) auto
  have "rev s \<noteq> []" "hd (rev s) = last s" using assms by (auto simp: hd_rev)
  then have 2: "dropWhile splitSpaceOrLF (rev s) = rev s"
    using assms by (intro dropWhile_hd) auto
  show ?thesis using assms(4) by (simp add: Trim_def 1 2)
qed


lemma frame_contents_shape:
  "\<exists>tail. frame_contents f @ CHR 0x0A # rest =
      Itoa (f_txnr f) @ CHR '' '' # f_command f @ CHR '' '' # Itoa (length (f_data f)) @ tail
    \<and> tail \<noteq> [] \<and> splitSpaceOrLF (hd tail)"
  by (simp add: frame_contents_def splitSpaceOrLF_def)

lemma FieldsFunc_framer:
  assumes "valid_frame f"
  shows "\<exists>more. FieldsFunc (framer f @ rest) =
           Itoa (f_txnr f) # f_command f # Itoa (length (f_data f)) # more"
proof -
  obtain tail where t: "frame_contents f @ CHR 0x0A # rest =
      Itoa (f_txnr f) @ CHR '' '' # f_command f @ CHR '' '' # Itoa (length (f_data f)) @ tail"
     "tail \<noteq> []" "splitSpaceOrLF (hd tail)"
    using frame_contents_shape by blast
  obtain w tl where tl: "tail = w # tl" "splitSpaceOrLF w" using t(2,3) by (cases tail) auto
  have sp: "splitSpaceOrLF (CHR '' '')" by (simp add: splitSpaceOrLF_def)
  have c: "f_command f \<noteq> []" "\<not> list_ex splitSpaceOrLF (f_command f)"
    using assms by (auto simp: valid_frame_def)
  have "FieldsFunc (framer f @ rest) =
     Itoa (f_txnr f) # f_command f # Itoa (length (f_data f)) # FieldsFunc_from [] tl"
    unfolding FieldsFunc_def framer_def
    using t(1) tl(1)
    by (simp add: FieldsFunc_token_sep [OF Itoa_nonempty Itoa_no_space sp]
        FieldsFunc_token_sep [OF c sp] FieldsFunc_token_sep [OF Itoa_nonempty Itoa_no_space tl(2)])
  then show ?thesis by blast
qed

lemma TrimLeft_framer: "TrimLeft (framer f @ rest) = framer f @ rest"
proof -
  obtain c cs where h: "Itoa (f_txnr f) = c # cs" "is_digit c" using Itoa_head by blast
  then show ?thesis
    using is_digit_not_space by (simp add: TrimLeft_def framer_def frame_contents_def)
qed

lemma length_framer:
  "int (length (framer f)) =
     int (length (Itoa (f_txnr f) @ '' '' @ f_command f @ '' '' @ Itoa (length (f_data f)))) + 1
       + (if f_data f = [] then 0 else int (length (f_data f)) + 1)"
  by (simp add: framer_def frame_contents_def)

lemma Trim_framer:
  assumes "\<not> ends_in_space (f_data f)"
  shows "Trim (framer f) = frame_contents f"
proof -
  obtain c cs where h: "Itoa (f_txnr f) = c # cs" "is_digit c" using Itoa_head by blast
  have ne: "frame_contents f \<noteq> []" using h by (simp add: frame_contents_def)
  have hd: "\<not> splitSpaceOrLF (hd (frame_contents f))"
    using h is_digit_not_space by (simp add: frame_contents_def)
  obtain d ds where h2: "Itoa (length (f_data f)) = ds @ [d]" "is_digit d"
    using Itoa_digits [of "length (f_data f)"] Itoa_nonempty [of "length (f_data f)"]
    by (cases "Itoa (length (f_data f))" rule: rev_cases) auto
  have lst: "\<not> splitSpaceOrLF (last (frame_contents f))"
  proof (cases "f_data f = []")
    case True
    then show ?thesis using h2 is_digit_not_space by (simp add: frame_contents_def)
  next
    case False
    then show ?thesis using assms by (simp add: frame_contents_def ends_in_space_def)
  qed
  show ?thesis unfolding framer_def
    by (rule Trim_snoc_space [OF ne hd lst]) (simp add: splitSpaceOrLF_def)
qed

lemma RelpSplit_framer:
  assumes v: "valid_frame f" and ne: "\<not> ends_in_space (f_data f)"
    and fit: "length (framer f) < 2 ^ 63"
  shows "RelpSplit (framer f @ rest) = Inr (int (length (framer f)), Some (frame_contents f), None)"
proof -
  define d where "d = framer f @ rest"
  define t1 where "t1 = Itoa (f_txnr f)"
  define t3 where "t3 = Itoa (length (f_data f))"
  define n where "n = int (length (f_data f))"
  obtain more where ff: "FieldsFunc d = t1 # f_command f # t3 # more"
    using FieldsFunc_framer [OF v] unfolding d_def t1_def t3_def by blast
  have tl: "TrimLeft d = d" unfolding d_def by (rule TrimLeft_framer)
  have dne: "d \<noteq> []" by (simp add: d_def framer_def)
  have ha: "header_advance d = int (length (t1 @ '' '' @ f_command f @ '' '' @ t3)) + 1"
    unfolding header_advance_def Let_def tl ff by simp
  have ifit: "int (length (framer f)) < 2 ^ 63"
    using fit by (metis of_nat_less_iff of_nat_numeral of_nat_power)
  have a1: "Atoi t1 = (int (f_txnr f), None)"
    unfolding t1_def using v by (intro Atoi_Itoa) (simp add: valid_frame_def)
  have "length (f_data f) \<le> length (framer f)" by (simp add: framer_def frame_contents_def)
  then have "length (f_data f) < 2 ^ 63" using fit by simp
  then have a2: "Atoi t3 = (n, None)"
    unfolding t3_def n_def by (rule Atoi_Itoa)
  have lf: "int (length (framer f)) = header_advance d + (if f_data f = [] then 0 else n + 1)"
    unfolding ha t1_def t3_def n_def using length_framer [of f] by simp
  have ld: "int (length (framer f)) \<le> int (length d)" by (simp add: d_def)
  have nn: "0 \<le> n" by (simp add: n_def)
  have guard: "\<not> int (length d) < header_advance d"
    using lf ld nn by (simp split: if_splits)
  have R: "RelpSplit d =
      (if n = 0 then Inr (header_advance d, Some (t1 @ '' '' @ f_command f @ '' '' @ t3), None)
       else let advance' = wrap64 (header_advance d + wrap64 (n + 1)) in
                       if advance' \<le> int (length d) then
                         (if advance' < 0 then Inl SliceBoundsOutOfRange
                          else Inr (advance', Some (Trim (take (nat advance') d)), None))
                       else Inr (0, None, None))"
    apply (subst RelpSplit_unfold)
    unfolding tl ff using dne guard a1 a2 by simp
  show ?thesis
  proof (cases "f_data f = []")
    case True
    then have "n = 0" by (simp add: n_def)
    moreover have "frame_contents f = t1 @ '' '' @ f_command f @ '' '' @ t3"
      using True by (simp add: frame_contents_def t1_def t3_def)
    ultimately show ?thesis
      unfolding d_def [symmetric] R using lf True by simp
  next
    case False
    then have n0: "n \<noteq> 0" by (simp add: n_def)
    have len: "int (length (framer f)) = header_advance d + n + 1"
      using lf False by simp
    have hpos: "0 \<le> header_advance d" unfolding ha by simp
    have w1: "wrap64 (n + 1) = n + 1"
      using ifit len hpos nn by (intro wrap64_id) auto
    have w2: "wrap64 (header_advance d + (n + 1)) = int (length (framer f))"
      using ifit len by (simp add: wrap64_id)
    have tk: "take (length (framer f)) d = framer f" by (simp add: d_def)
    show ?thesis
      unfolding d_def [symmetric] R using n0 ld by (simp add: w1 w2 Let_def tk Trim_framer [OF ne])
  qed
qed

lemma Scan_token:
  assumes "RelpSplit data = Inr (int n, Some tok, None)" "0 < n" "n \<le> length data"
  shows "Scan data = (tok # fst (Scan (drop n data)), snd (Scan (drop n data)))"
  using assms by (subst Scan.simps) simp

lemma Scan_Nil: "Scan [] = ([], ScanEOF)"
  by (subst Scan.simps) (simp add: RelpSplit_def TrimLeft_def)

lemma Scan_frames:
  assumes "list_all valid_frame fs" "\<not> list_ex (\<lambda>f. ends_in_space (f_data f)) fs"
    and "length (concat (map framer fs)) < 2 ^ 63"
  shows "Scan (concat (map framer fs)) = (map frame_contents fs, ScanEOF)"
  using assms
proof (induction fs)
  case Nil
  show ?case by (simp add: Scan_Nil)
next
  case (Cons f fs)
  let ?rest = "concat (map framer fs)"
  have fit: "length (framer f) < 2 ^ 63" "length ?rest < 2 ^ 63"
    using Cons.prems(3) by simp_all
  have rs: "RelpSplit (framer f @ ?rest) = Inr (int (length (framer f)), Some (frame_contents f), None)"
    using Cons.prems(1,2) fit(1) by (intro RelpSplit_framer) auto
  have pos: "0 < length (framer f)" by (simp add: framer_def)
  have ih: "Scan ?rest = (map frame_contents fs, ScanEOF)"
    using Cons.IH Cons.prems(1,2) fit(2) by simp
  show ?case
    using Scan_token [OF rs pos] ih by simp
qed

text \<open>
  C4. As stated the claim fails: \<open>RelpSplit\<close> trims the token on both sides, so a
  payload that ends in a space, a carriage return or a line feed comes back without
  those bytes.
\<close>

theorem RelpSplit_roundtrip_counterexample:
  "valid_frame \<lparr>f_txnr = 2, f_command = ''syslog'', f_data = ''x ''\<rparr>
   \<and> frame_contents \<lparr>f_txnr = 2, f_command = ''syslog'', f_data = ''x ''\<rparr> = ''2 syslog 2 x ''
   \<and> Scan (framer \<lparr>f_txnr = 2, f_command = ''syslog'', f_data = ''x ''\<rparr>)
       = ([''2 syslog 2 x''], ScanEOF)"
proof -
  have "valid_frame \<lparr>f_txnr = 2, f_command = ''syslog'', f_data = ''x ''\<rparr>"
    by (simp add: valid_frame_def splitSpaceOrLF_def)
  moreover have "frame_contents \<lparr>f_txnr = 2, f_command = ''syslog'', f_data = ''x ''\<rparr>
      = ''2 syslog 2 x ''"
    by code_simp
  moreover have "Scan (framer \<lparr>f_txnr = 2, f_command = ''syslog'', f_data = ''x ''\<rparr>)
       = ([''2 syslog 2 x''], ScanEOF)"
    by code_simp
  ultimately show ?thesis by blast
qed

text \<open>
  C4, amended. For every stream of valid frames (TXNR below \<open>2^63\<close>, a command
  without whitespace, DATALEN the byte length of DATA, the stream shorter than
  \<open>2^63\<close> bytes) in which no DATA ends in a space, a carriage return or a line feed,
  scanning the framed stream with \<open>RelpSplit\<close> yields exactly the frames' contents, in
  order, and nothing else.
\<close>

theorem RelpSplit_inverts_framer:
  "list_all valid_frame fs \<Longrightarrow> \<not> list_ex (\<lambda>f. ends_in_space (f_data f)) fs
   \<Longrightarrow> length (concat (map framer fs)) < 2 ^ 63
   \<Longrightarrow> Scan (concat (map framer fs)) = (map frame_contents fs, ScanEOF)"
  by (rule Scan_frames)

theorem RelpSplit_inverts_framer_witness:
  "list_all valid_frame
     [\<lparr>f_txnr = 1, f_command = ''open'', f_data = ''relp_version=0''\<rparr>,
      \<lparr>f_txnr = 2, f_command = ''syslog'', f_data = ''<13>Oct 11 22:14:15 x''\<rparr>,
      \<lparr>f_txnr = 3, f_command = ''close'', f_data = ''''\<rparr>]
   \<and> \<not> list_ex (\<lambda>f. ends_in_space (f_data f))
     [\<lparr>f_txnr = 1, f_command = ''open'', f_data = ''relp_version=0''\<rparr>,
      \<lparr>f_txnr = 2, f_command = ''syslog'', f_data = ''<13>Oct 11 22:14:15 x''\<rparr>,
      \<lparr>f_txnr = 3, f_command = ''close'', f_data = ''''\<rparr>]
   \<and> Scan ''1 open 14 relp_version=0\<newline>2 syslog 21 <13>Oct 11 22:14:15 x\<newline>3 close 0\<newline>''
       = ([''1 open 14 relp_version=0'', ''2 syslog 21 <13>Oct 11 22:14:15 x'', ''3 close 0''],
          ScanEOF)"
proof -
  let ?fs = "[\<lparr>f_txnr = 1, f_command = ''open'', f_data = ''relp_version=0''\<rparr>,
      \<lparr>f_txnr = 2, f_command = ''syslog'', f_data = ''<13>Oct 11 22:14:15 x''\<rparr>,
      \<lparr>f_txnr = 3, f_command = ''close'', f_data = ''''\<rparr>]"
  have h1: "list_all valid_frame ?fs"
    by (simp add: valid_frame_def splitSpaceOrLF_def)
  have h2: "\<not> list_ex (\<lambda>f. ends_in_space (f_data f)) ?fs"
    by (simp add: ends_in_space_def splitSpaceOrLF_def)
  have st: "concat (map framer ?fs)
      = ''1 open 14 relp_version=0\<newline>2 syslog 21 <13>Oct 11 22:14:15 x\<newline>3 close 0\<newline>''"
    by code_simp
  have cs: "map frame_contents ?fs
      = [''1 open 14 relp_version=0'', ''2 syslog 21 <13>Oct 11 22:14:15 x'', ''3 close 0'']"
    by code_simp
  have h3: "length (concat (map framer ?fs)) < 2 ^ 63"
    unfolding st by simp
  show ?thesis
    using RelpSplit_inverts_framer [OF h1 h2 h3] h1 h2 unfolding st cs by simp
qed
lemma RawTcpMessage_updates:
  "(r :: RawTcpMessage)\<lparr>Size := a, Txnr := b, Client := c, LocalPort := d, UnixSocketPath := e,
      ConfID := g, DontParseSD := h, Encoding := i, Format := j, ConnID := k, Message := m\<rparr>
   = \<lparr>Message = m, Size = a, Txnr = b, Client = c, LocalPort = d, UnixSocketPath = e,
      ConfID = g, DontParseSD = h, Encoding = i, Format = j, ConnID = k\<rparr>"
  by (cases r) simp

lemma syslog_command:
  assumes "relpIsOpen st"
  shows "handle_command env rented st txnr ''syslog'' data =
     (if data = []
      then (Continue, st\<lparr>forwarder := ForwardSucc (Received (forwarder st) (connID env) txnr) (connID env) txnr\<rparr>)
      else (Continue, st\<lparr>forwarder := Received (forwarder st) (connID env) txnr,
                          trace := trace st @ [PoolGet (fst rented), IncomingMsgsInc (client env),
                              RawPut (fst rented) (syslog_rawmsg env (snd rented) txnr data)]\<rparr>))"
  using assms
  by (simp add: handle_command_def Let_def emit_def syslog_rawmsg_def RawTcpMessage_updates)


text \<open>
  C5. A \<open>syslog\<close> frame on an open session, with a txnr greater than \<open>previous\<close>:
  \<open>data\<close> is empty when DATALEN is 0 and is the trimmed fourth piece otherwise. With
  empty \<open>data\<close> the handler calls \<open>Received\<close> and \<open>ForwardSucc\<close> for the txnr and does
  nothing else: no buffer is taken from the pool and nothing is put on the raw ring.
  With non-empty \<open>data\<close> it calls \<open>Received\<close>, takes a buffer from the pool, copies
  the payload into it, stamps size, txnr, client, port, path, configuration and
  connection, counts the message and puts it on the raw ring.
\<close>

theorem syslog_frame_handling:
  assumes "relpIsOpen st"
    and "SplitN line (CHR '' '') 4 = txnrStr # ''syslog'' # datalenStr # pieces"
    and "previous st < fst (Atoi txnrStr)"
    and "(fst (Atoi datalenStr) = 0 \<and> data = [])
         \<or> (fst (Atoi datalenStr) \<noteq> 0 \<and> pieces = [d] \<and> data = Trim d)"
  shows "handle_line env rented st line =
     (if data = []
      then (Continue,
            st\<lparr>previous := fst (Atoi txnrStr),
               forwarder := ForwardSucc (Received (forwarder st) (connID env) (fst (Atoi txnrStr)))
                              (connID env) (fst (Atoi txnrStr))\<rparr>)
      else (Continue,
            st\<lparr>previous := fst (Atoi txnrStr),
               forwarder := Received (forwarder st) (connID env) (fst (Atoi txnrStr)),
               trace := trace st @
                 [PoolGet (fst rented), IncomingMsgsInc (client env),
                  RawPut (fst rented) (syslog_rawmsg env (snd rented) (fst (Atoi txnrStr)) data)]\<rparr>))"
proof -
  have o: "relpIsOpen (st\<lparr>previous := fst (Atoi txnrStr)\<rparr>)" using assms(1) by simp
  show ?thesis
    using assms(2,3,4) syslog_command [OF o, of env rented "fst (Atoi txnrStr)"]
    by (auto simp: handle_line_def Let_def)
qed

theorem syslog_frame_handling_witness:
  "handle_line scenario_env scenario_buffer
      \<lparr>relpIsOpen = True, previous = 1, forwarder = snd (AddConn newAckForwarder), trace = []\<rparr>
      ''2 syslog 0''
    = (Continue,
       \<lparr>relpIsOpen = True, previous = 2,
        forwarder = ForwardSucc (Received (snd (AddConn newAckForwarder)) 1 2) 1 2, trace = []\<rparr>)
   \<and> handle_line scenario_env scenario_buffer
      \<lparr>relpIsOpen = True, previous = 1, forwarder = snd (AddConn newAckForwarder), trace = []\<rparr>
      ''2 syslog 4 test''
    = (Continue,
       \<lparr>relpIsOpen = True, previous = 2,
        forwarder = Received (snd (AddConn newAckForwarder)) 1 2,
        trace = [PoolGet 7, IncomingMsgsInc ''10.0.0.1'',
                 RawPut 7 \<lparr>Message = ''testXXXXXXXXXXXX'', Size = 4, Txnr = 2,
                            Client = ''10.0.0.1'', LocalPort = 2514, UnixSocketPath = [],
                            ConfID = ''01ARZ3NDEKTSV4RRFFQ69G5FAV'', DontParseSD = False,
                            Encoding = ''utf8'', Format = ''rfc5424'', ConnID = 1\<rparr>]\<rparr>)
   \<and> queues (ForwardSucc (Received (snd (AddConn newAckForwarder)) 1 2) 1 2)
    = [\<lparr>items = [2], disposed = False\<rparr>, \<lparr>items = [], disposed = False\<rparr>]"
proof -
  let ?st = "\<lparr>relpIsOpen = True, previous = 1, forwarder = snd (AddConn newAckForwarder),
              trace = []\<rparr>"
  have s1: "SplitN ''2 syslog 0'' (CHR '' '') 4 = ''2'' # ''syslog'' # ''0'' # []" by code_simp
  have s2: "SplitN ''2 syslog 4 test'' (CHR '' '') 4 = ''2'' # ''syslog'' # ''4'' # [''test'']"
    by code_simp
  have a2: "fst (Atoi ''2'') = 2" by code_simp
  have a0: "fst (Atoi ''0'') = 0" by code_simp
  have a4: "fst (Atoi ''4'') = 4" by code_simp
  have t: "Trim ''test'' = ''test''" by code_simp
  have o: "relpIsOpen ?st" by simp
  have p: "previous ?st < fst (Atoi ''2'')"
    by (simp add: a2)
  have d1: "(fst (Atoi ''0'') = 0 \<and> [] = ([] :: string))
         \<or> (fst (Atoi ''0'') \<noteq> 0 \<and> [] = [d] \<and> [] = Trim d)" for d
    by (simp add: a0)
  have d2: "(fst (Atoi ''4'') = 0 \<and> ''test'' = [])
         \<or> (fst (Atoi ''4'') \<noteq> 0 \<and> [''test''] = [''test''] \<and> ''test'' = Trim ''test'')"
    by (simp add: a4 t)
  have m: "syslog_rawmsg scenario_env (snd scenario_buffer) 2 ''test''
     = \<lparr>Message = ''testXXXXXXXXXXXX'', Size = 4, Txnr = 2,
                            Client = ''10.0.0.1'', LocalPort = 2514, UnixSocketPath = [],
                            ConfID = ''01ARZ3NDEKTSV4RRFFQ69G5FAV'', DontParseSD = False,
                            Encoding = ''utf8'', Format = ''rfc5424'', ConnID = 1\<rparr>"
    by (simp add: syslog_rawmsg_def scenario_env_def scenario_buffer_def scenario_config_def
        copy_bytes_def)
  have e: "connID scenario_env = 1" "client scenario_env = ''10.0.0.1''" "fst scenario_buffer = 7"
    by (simp_all add: scenario_env_def scenario_buffer_def)
  have q: "queues (ForwardSucc (Received (snd (AddConn newAckForwarder)) 1 2) 1 2)
    = [\<lparr>items = [2], disposed = False\<rparr>, \<lparr>items = [], disposed = False\<rparr>]"
    by (simp add: AddConn_def newAckForwarder_def Let_def Received_def ForwardSucc_def GetKey_def
        Set_def queue_upd_def queue_at_def Put_def NewIntQueue_def)
  show ?thesis
    using syslog_frame_handling [OF o s1 p d1, of scenario_env scenario_buffer]
      syslog_frame_handling [OF o s2 p d2, of scenario_env scenario_buffer]
    unfolding a2 m e by (simp add: q del: One_nat_def)
qed

section \<open>Buffers of the pool\<close>















section \<open>Removing a connection from the forwarder\<close>



lemma AddConn_maps:
  "GetKey (succ (snd (AddConn f))) (fst (AddConn f)) = Some (Some (length (queues f)))"
  "GetKey (fail (snd (AddConn f))) (fst (AddConn f)) = Some (Some (length (queues f) + 1))"
  "GetKey (comm (snd (AddConn f))) (fst (AddConn f)) = Some (Some [])"
  "queues (snd (AddConn f)) = queues f @ [NewIntQueue, NewIntQueue]"
  by (simp_all add: AddConn_def Let_def GetKey_Set)

lemma RemoveConn_after_AddConn:
  fixes f :: ackForwarder
  defines "c \<equiv> fst (AddConn f)" and "f1 \<equiv> snd (AddConn f)"
  shows "GetKey (succ (RemoveConn f1 c)) c = None"
    and "GetKey (comm (RemoveConn f1 c)) c = None"
    and "GetKey (fail (RemoveConn f1 c)) c = Some None"
    and "Wait (RemoveConn f1 c) c = Some False"
    and "Wait_pointers f1 c = Some (length (queues f), length (queues f) + 1)"
    and "Wait_pending (RemoveConn f1 c) (length (queues f), length (queues f) + 1) = Some False"
proof -
  note m = AddConn_maps [of f, folded c_def f1_def]
  have s: "RemoveConn_succ f1 c = (queue_upd f1 (length (queues f)) (Dispose (queue_at f1 (length (queues f)))))
            \<lparr>succ := Del (Set (succ f1) c None) c\<rparr>"
    by (simp add: RemoveConn_succ_def m)
  let ?f2 = "RemoveConn_succ f1 c"
  have s2: "GetKey (fail ?f2) c = Some (Some (length (queues f) + 1))" "GetKey (comm ?f2) c = Some (Some [])"
    "GetKey (succ ?f2) c = None"
    by (simp_all add: s m queue_upd_def GetKey_Del)
  let ?f3 = "RemoveConn_fail ?f2 c"
  have f3: "?f3 = (queue_upd ?f2 (length (queues f) + 1) (Dispose (queue_at ?f2 (length (queues f) + 1))))
            \<lparr>fail := Del (Set (fail ?f2) c None) c\<rparr>"
    by (simp add: RemoveConn_fail_def s2)
  have s3: "GetKey (fail ?f3) c = None" "GetKey (comm ?f3) c = Some (Some [])" "GetKey (succ ?f3) c = None"
    by (simp_all add: f3 s2 queue_upd_def GetKey_Del)
  have f4: "RemoveConn f1 c = ?f3\<lparr>fail := Set (fail ?f3) c None, comm := Del (comm ?f3) c\<rparr>"
    by (simp add: RemoveConn_def RemoveConn_comm_def s3)
  show "GetKey (succ (RemoveConn f1 c)) c = None" by (simp add: f4 s3)
  show "GetKey (comm (RemoveConn f1 c)) c = None" by (simp add: f4 GetKey_Del)
  show "GetKey (fail (RemoveConn f1 c)) c = Some None" by (simp add: f4 GetKey_Set)
  show "Wait (RemoveConn f1 c) c = Some False" by (simp add: Wait_def Wait_pointers_def f4 s3)
  show "Wait_pointers f1 c = Some (length (queues f), length (queues f) + 1)"
    by (simp add: Wait_pointers_def m)
  have q: "queues (RemoveConn f1 c) = (queues f @ [NewIntQueue, NewIntQueue])
      [length (queues f) := Dispose NewIntQueue, length (queues f) + 1 := Dispose NewIntQueue]"
  proof -
    have q2: "queues ?f2 = (queues f @ [NewIntQueue, NewIntQueue])[length (queues f) := Dispose NewIntQueue]"
      by (simp add: s queue_upd_def queue_at_def m nth_append)
    have q3: "queues ?f3 = (queues ?f2)[length (queues f) + 1 := Dispose (queue_at ?f2 (length (queues f) + 1))]"
      by (subst f3) (simp add: queue_upd_def)
    have a: "queue_at ?f2 (length (queues f) + 1) = NewIntQueue"
      by (simp add: queue_at_def q2 nth_append)
    have "queues (RemoveConn f1 c) = queues ?f3" by (subst f4) simp
    then show ?thesis by (simp only: q3 q2 a)
  qed
  show "Wait_pending (RemoveConn f1 c) (length (queues f), length (queues f) + 1) = Some False"
    by (simp add: Wait_pending_def queue_at_def q WaitOne_def Dispose_def nth_append nth_list_update)
qed

text \<open>
  C7. \<open>RemoveConn\<close> on a connection that \<open>AddConn\<close> has registered, on any forwarder:
  the entries of \<open>succ\<close> and \<open>comm\<close> are gone, a later \<open>Wait\<close> returns false and so
  does a \<open>Wait\<close> that already holds the two queues; but the third branch of
  \<open>RemoveConn\<close> writes \<open>f.fail.Set(connID, nil)\<close>, so the map \<open>fail\<close> keeps an entry
  for the connection, holding the nil pointer.
\<close>

theorem RemoveConn_keeps_fail_entry:
  "GetKey (fail (RemoveConn (snd (AddConn f)) (fst (AddConn f)))) (fst (AddConn f)) = Some None
   \<and> GetKey (succ (RemoveConn (snd (AddConn f)) (fst (AddConn f)))) (fst (AddConn f)) = None
   \<and> GetKey (comm (RemoveConn (snd (AddConn f)) (fst (AddConn f)))) (fst (AddConn f)) = None
   \<and> Wait (RemoveConn (snd (AddConn f)) (fst (AddConn f))) (fst (AddConn f)) = Some False
   \<and> Wait_pointers (snd (AddConn f)) (fst (AddConn f))
        = Some (length (queues f), length (queues f) + 1)
   \<and> Wait_pending (RemoveConn (snd (AddConn f)) (fst (AddConn f)))
        (length (queues f), length (queues f) + 1) = Some False
   \<and> fail (RemoveConn (snd (AddConn newAckForwarder)) 1) = [(1, None)]"
proof -
  have "fail (RemoveConn (snd (AddConn newAckForwarder)) 1) = [(1, None)]"
    by (simp add: AddConn_def newAckForwarder_def Let_def RemoveConn_def RemoveConn_succ_def
        RemoveConn_fail_def RemoveConn_comm_def GetKey_def Set_def Del_def queue_upd_def)
  then show ?thesis
    using RemoveConn_after_AddConn [of f] by simp
qed

section \<open>A syslog message before the plugin has started\<close>


lemma SplitN_from_last: "SplitN_from sep cur s (Suc 0) = [cur @ s]"
  by (cases s) auto

lemma SplitN_syslog: "SplitN (''syslog '' @ payload) (CHR '' '') 2 = [''syslog'', payload]"
  by (simp add: SplitN_def SplitN_from_last)

lemma listen_loop_append:
  "listen_loop e l (xs @ ys) =
     (case listen_loop e l xs of (True, l') \<Rightarrow> (True, l') | (False, l') \<Rightarrow> listen_loop e l' ys)"
  by (induction xs arbitrary: l) (auto split: prod.splits bool.splits)

lemma listen_step_syslog_parts:
  "SplitN text (CHR '' '') 2 = [''syslog'', payload] \<Longrightarrow> \<not> initialized l \<Longrightarrow> once_sent l = None \<Longrightarrow>
   listen_step e l text =
     (False, l\<lparr>once_sent := Some (error_only ''Plugin sent a syslog message before being initialized''),
               kill := True\<rparr>)"
  by (simp add: listen_step_def once_Do_def Let_def)

lemma listen_step_syslog_early:
  "\<not> initialized l \<Longrightarrow> once_sent l = None \<Longrightarrow>
   listen_step e l (''syslog '' @ payload) =
     (False, l\<lparr>once_sent := Some (error_only ''Plugin sent a syslog message before being initialized''),
               kill := True\<rparr>)"
  by (rule listen_step_syslog_parts [OF SplitN_syslog])

lemma listen_syslog_early:
  assumes "listen_loop e new_listener pre = (False, l)" "\<not> initialized l" "once_sent l = None"
  shows "listen e ct early (pre @ (''syslog '' @ payload) # rest) fin =
     listen_defer
       (l\<lparr>once_sent := Some (error_only ''Plugin sent a syslog message before being initialized''),
          kill := True\<rparr>,
        if early then reaper (ct\<lparr>child_exited := True\<rparr>) else ct)"
proof -
  have "listen_loop e l ((''syslog '' @ payload) # rest) =
     (True, l\<lparr>once_sent := Some (error_only ''Plugin sent a syslog message before being initialized''),
          kill := True\<rparr>)"
    by (simp only: listen_loop.simps listen_step_syslog_early [OF assms(2,3)] prod.case bool.case)
  then have "listen_loop e new_listener (pre @ (''syslog '' @ payload) # rest) =
     (True, l\<lparr>once_sent := Some (error_only ''Plugin sent a syslog message before being initialized''),
          kill := True\<rparr>)"
    by (simp only: listen_loop_append assms(1) prod.case bool.case)
  then show ?thesis
    by (simp only: listen_def Let_def prod.case if_True)
qed

lemma listen_defer_killed:
  assumes "kill l" "once_sent l = Some r"
  shows "once_sent (fst (listen_defer (l, ct))) = Some r"
    and "ShutdownChan_closed (snd (listen_defer (l, ct)))"
    and "\<not> created (snd (listen_defer (l, ct)))"
    and "\<not> started (snd (listen_defer (l, ct)))"
    and "StopChan_closed (snd (listen_defer (l, ct)))"
    and "\<not> ShutdownChan_closed ct \<Longrightarrow>
           events (fst (listen_defer (l, ct))) = events l @ [ProcessKill True]
           \<and> child_exited (snd (listen_defer (l, ct)))"
  using assms
  by (auto simp: listen_defer_def once_Do_def Let_def log_def reaper_def Process_Kill_def)


lemma Start_error_received:
  "created ct \<Longrightarrow> \<not> started ct \<Longrightarrow>
   fst (Start name ct None None False (error_only msg)) = (None, Some msg)"
  by (simp add: Start_def error_only_def Let_def)

text \<open>
  C8. As stated the claim fails on the error text: for a \<open>syslog\<close> message with a
  body that arrives before \<open>started\<close>, the goroutine sends the error
  \<open>Plugin sent a syslog message before being initialized\<close> to \<open>Start\<close>; the text
  \<open>Unexpected end of plugin before it was initialized\<close> is what the deferred function
  sends when nothing was sent before.
\<close>

theorem early_syslog_error_counterexample:
  "Start_on \<lparr>decode_infos = (\<lambda>s. Inr s), decode_msg = (\<lambda>s. Some s),
             decode_metrics = (\<lambda>s. Some s), has_registry = False\<rparr>
      ''skewer-relp''
      \<lparr>created = True, started = False, child_exited = False, ShutdownChan_closed = False,
       StopChan_closed = False\<rparr>
      False [''syslog payload''] AtEOF
    = (None, Some ''Plugin sent a syslog message before being initialized'')
   \<and> ''Plugin sent a syslog message before being initialized''
       \<noteq> ''Unexpected end of plugin before it was initialized''"
  by code_simp

text \<open>
  C8, amended. If a plugin child emits \<open>syslog\<close> with a body while the goroutine is
  still reading, the plugin is not initialised and \<open>Start\<close> has not been answered
  yet, then \<open>Start\<close> (on a created, not started plugin, whose writes succeed and
  whose timer has not fired) returns the error
  \<open>Plugin sent a syslog message before being initialized\<close>, \<open>ShutdownChan\<close> is
  closed when the goroutine ends, the plugin counts as not created, and the supervisor
  kills the child if it has not exited by then.
\<close>

theorem early_syslog_kills_plugin:
  assumes "listen_loop e new_listener pre = (False, l)"
    and "\<not> initialized l" and "once_sent l = None"
    and "created ct" and "\<not> started ct"
  shows "Start_on e name ct early (pre @ (''syslog '' @ payload) # rest) fin
           = (None, Some ''Plugin sent a syslog message before being initialized'')
     \<and> ShutdownChan_closed (snd (listen e ct early (pre @ (''syslog '' @ payload) # rest) fin))
     \<and> \<not> created (snd (listen e ct early (pre @ (''syslog '' @ payload) # rest) fin))
     \<and> (\<not> ShutdownChan_closed ct \<and> \<not> early \<longrightarrow>
          events (fst (listen e ct early (pre @ (''syslog '' @ payload) # rest) fin))
            = events l @ [ProcessKill True]
          \<and> child_exited (snd (listen e ct early (pre @ (''syslog '' @ payload) # rest) fin)))"
proof -
  let ?l = "l\<lparr>once_sent := Some (error_only ''Plugin sent a syslog message before being initialized''),
          kill := True\<rparr>"
  let ?ct = "if early then reaper (ct\<lparr>child_exited := True\<rparr>) else ct"
  have L: "listen e ct early (pre @ (''syslog '' @ payload) # rest) fin = listen_defer (?l, ?ct)"
    by (rule listen_syslog_early [OF assms(1,2,3)])
  have k: "kill ?l" by simp
  have o: "once_sent ?l = Some (error_only ''Plugin sent a syslog message before being initialized'')"
    by simp
  note d = listen_defer_killed [OF k o, of ?ct]
  have s: "Start_on e name ct early (pre @ (''syslog '' @ payload) # rest) fin
           = (None, Some ''Plugin sent a syslog message before being initialized'')"
    unfolding Start_on_def L d(1) option.case
    by (rule Start_error_received [OF assms(4,5)])
  have e: "events ?l = events l" by simp
  show ?thesis
    using s d(2,3) d(6) unfolding L e by auto
qed

theorem early_syslog_kills_plugin_witness:
  "Start_on \<lparr>decode_infos = (\<lambda>s. Inr s), decode_msg = (\<lambda>s. Some s),
             decode_metrics = (\<lambda>s. Some s), has_registry = True\<rparr>
      ''skewer-relp''
      \<lparr>created = True, started = False, child_exited = False, ShutdownChan_closed = False,
       StopChan_closed = False\<rparr>
      False [''infos []'', ''syslog'', ''syslog <13>test''] AtEOF
    = (None, Some ''Plugin sent a syslog message before being initialized'')
   \<and> listen \<lparr>decode_infos = (\<lambda>s. Inr s), decode_msg = (\<lambda>s. Some s),
             decode_metrics = (\<lambda>s. Some s), has_registry = True\<rparr>
      \<lparr>created = True, started = False, child_exited = False, ShutdownChan_closed = False,
       StopChan_closed = False\<rparr>
      False [''infos []'', ''syslog'', ''syslog <13>test''] AtEOF
    = (\<lparr>initialized = False, kill = True, normalStop = False,
        once_sent = Some (error_only ''Plugin sent a syslog message before being initialized''),
        infos = Some ''[]'',
        events = [Unregister None, Register ''[]'', ProcessKill True]\<rparr>,
       \<lparr>created = False, started = False, child_exited = True, ShutdownChan_closed = True,
        StopChan_closed = True\<rparr>)"
proof -
  let ?e = "\<lparr>decode_infos = (\<lambda>s. Inr s), decode_msg = (\<lambda>s. Some s),
             decode_metrics = (\<lambda>s. Some s), has_registry = True\<rparr>
             :: (string, string, string) plugin_env"
  let ?ct = "\<lparr>created = True, started = False, child_exited = False, ShutdownChan_closed = False,
       StopChan_closed = False\<rparr>"
  let ?l = "\<lparr>initialized = False, kill = False, normalStop = False, once_sent = None,
        infos = Some ''[]'', events = [Unregister None, Register ''[]'']\<rparr>
        :: (string, string, string) listener"
  have p: "listen_loop ?e new_listener [''infos []'', ''syslog''] = (False, ?l)" by code_simp
  have i: "\<not> initialized ?l" by simp
  have n: "once_sent ?l = None" by simp
  have c: "created ?ct" by simp
  have s: "\<not> started ?ct" by simp
  have r: "listen ?e ?ct False [''infos []'', ''syslog'', ''syslog <13>test''] AtEOF
    = (\<lparr>initialized = False, kill = True, normalStop = False,
        once_sent = Some (error_only ''Plugin sent a syslog message before being initialized''),
        infos = Some ''[]'',
        events = [Unregister None, Register ''[]'', ProcessKill True]\<rparr>,
       \<lparr>created = False, started = False, child_exited = True, ShutdownChan_closed = True,
        StopChan_closed = True\<rparr>)"
    by code_simp
  show ?thesis
    using early_syslog_kills_plugin [OF p i n c s, of "''skewer-relp''" False "''<13>test''" "[]" AtEOF] r
    by simp
qed

section \<open>The binder's replies\<close>


text \<open>
  C9. The binder answers \<open>listen tcp:0.0.0.0:2514\<close> with the bytes
  \<open>confirmlisten tcp:0.0.0.0:2514\<close> when the bind succeeds (and keeps the listener),
  and with \<open>error tcp:0.0.0.0:2514 MESSAGE\<close> when it fails; neither reply ends in a
  line feed, whereas the replies \<open>stopped ADDR\<close> and \<open>newconn UID ADDR\<close> of the same
  function do.
\<close>

theorem listen_replies_lack_newline:
  "binder_message
      \<lparr>net_Listen = (\<lambda>lnet laddr. Inr 3), net_ListenPacket = (\<lambda>lnet laddr. Inr 4),
       Write_fails = (\<lambda>bytes. False)\<rparr>
      ''01ARZ3NDEKTSV4RRFFQ69G5FAV'' \<lparr>listeners = [], sent = []\<rparr> ''listen tcp:0.0.0.0:2514''
    = Inr (True, \<lparr>listeners = [(''tcp:0.0.0.0:2514'', 3)],
                  sent = [ChildWrite ''confirmlisten tcp:0.0.0.0:2514'']\<rparr>)
   \<and> \<not> newline_terminated ''confirmlisten tcp:0.0.0.0:2514''
   \<and> binder_message
      \<lparr>net_Listen = (\<lambda>lnet laddr. Inl ''bind: permission denied''),
       net_ListenPacket = (\<lambda>lnet laddr. Inr 4), Write_fails = (\<lambda>bytes. False)\<rparr>
      ''01ARZ3NDEKTSV4RRFFQ69G5FAV'' \<lparr>listeners = [], sent = []\<rparr> ''listen tcp:0.0.0.0:2514''
    = Inr (True, \<lparr>listeners = [],
                  sent = [ChildWrite ''error tcp:0.0.0.0:2514 bind: permission denied'']\<rparr>)
   \<and> \<not> newline_terminated ''error tcp:0.0.0.0:2514 bind: permission denied''
   \<and> binder_message
      \<lparr>net_Listen = (\<lambda>lnet laddr. Inr 3), net_ListenPacket = (\<lambda>lnet laddr. Inr 4),
       Write_fails = (\<lambda>bytes. False)\<rparr>
      ''01ARZ3NDEKTSV4RRFFQ69G5FAV'' \<lparr>listeners = [(''tcp:0.0.0.0:2514'', 3)], sent = []\<rparr>
      ''stoplisten tcp:0.0.0.0:2514''
    = Inr (True, \<lparr>listeners = [],
                  sent = [ListenerClose 3, ChildWrite ''stopped tcp:0.0.0.0:2514\<newline>'']\<rparr>)
   \<and> newline_terminated ''stopped tcp:0.0.0.0:2514\<newline>''
   \<and> newline_terminated (newconn_message ''01ARZ3NDEKTSV4RRFFQ69G5FAV'' ''tcp:0.0.0.0:2514'')"
  by code_simp

section \<open>The store plugin as the stasher\<close>








end
